theory Spec2Isabelle
  imports Main "HOL-Library.Word" "HOL-Library.Signed_Division"
begin

unbundle bit_operations_syntax

section \<open>Machine integers\<close>

text \<open>
  The C sources compute on \<^verbatim>\<open>int32_t\<close> / \<^verbatim>\<open>int\<close> values. A signed 32-bit value is
  modelled by the \<^typ>\<open>int\<close> it denotes; every place where the C arithmetic can leave the
  32-bit range is wrapped with \<open>i32\<close>, the two's complement reading of the low 32 bits
  (what the compiled code computes; in ISO C the overflow itself is undefined).
  The theorems that compare the code with an integer formula carry the hypothesis that
  the value fits, so they do not depend on that choice.

  C's \<^verbatim>\<open>/\<close> truncates towards zero: it is \<open>sdiv\<close> on \<^typ>\<open>int\<close>. C's \<^verbatim>\<open>>>\<close> on a
  signed value is the arithmetic shift, \<^term>\<open>drop_bit\<close> on \<^typ>\<open>int\<close>.
\<close>

definition i32 :: "int \<Rightarrow> int" where
  "i32 v = signed_take_bit 31 v"

definition fits_i32 :: "int \<Rightarrow> bool" where
  "fits_i32 v \<longleftrightarrow> - (2 ^ 31) \<le> v \<and> v < 2 ^ 31"

text \<open>
  Modelled from the spec: the macro \<^verbatim>\<open>CLIP(low, high, value)\<close> comes from a header that
  is not part of the sources at hand; the spec writes it \<^verbatim>\<open>clip(lo, hi, v)\<close>, the value
  limited to the closed interval.
\<close>

definition CLIP :: "int \<Rightarrow> int \<Rightarrow> int \<Rightarrow> int" where
  "CLIP low high v = max low (min high v)"


section \<open>Motion vector scaling (search\_inter.c)\<close>

text \<open>
  \<^verbatim>\<open>vector2d_t\<close> has the two \<^verbatim>\<open>int\<close> fields \<^verbatim>\<open>x\<close> and \<^verbatim>\<open>y\<close>; the fields are named
  \<open>vec_x\<close> and \<open>vec_y\<close> here. \<^verbatim>\<open>mv_t\<close> is taken to be a 32-bit signed integer (its
  declaration is in an absent header; the clip bounds \<open>\<plusminus>2\<^sup>1\<^sup>7\<close> need more than 16 bits).
\<close>

record vector2d =
  vec_x :: int
  vec_y :: int

text \<open>\<^verbatim>\<open>get_scaled_mv\<close>: calculate the scaled MV.\<close>

definition get_scaled_mv :: "int \<Rightarrow> int \<Rightarrow> int" where
  "get_scaled_mv mv scale =
     (let scaled = i32 (scale * mv)
      in CLIP (-131072) 131071
           (drop_bit 8 (i32 (scaled + 127 + (if scaled < 0 then 1 else 0)))))"

text \<open>
  \<^verbatim>\<open>apply_mv_scaling\<close>: scale the MV according to the POC difference. The candidate is
  passed by pointer and updated in place; the model returns the updated candidate.
\<close>

definition apply_mv_scaling :: "int \<Rightarrow> int \<Rightarrow> int \<Rightarrow> int \<Rightarrow> vector2d \<Rightarrow> vector2d" where
  "apply_mv_scaling current_poc current_ref_poc neighbor_poc neighbor_ref_poc mv_cand =
     (let diff_current = i32 (current_poc - current_ref_poc);
          diff_neighbor = i32 (neighbor_poc - neighbor_ref_poc)
      in if diff_current = diff_neighbor then mv_cand
         else if diff_neighbor = 0 then mv_cand
         else
           let diff_current = CLIP (-128) 127 diff_current;
               diff_neighbor = CLIP (-128) 127 diff_neighbor;
               scale = CLIP (-4096) 4095
                 (drop_bit 6
                    (diff_current * ((0x4000 + drop_bit 1 \<bar>diff_neighbor\<bar>) sdiv diff_neighbor)
                     + 32))
           in mv_cand\<lparr>vec_x := get_scaled_mv (vec_x mv_cand) scale,
                      vec_y := get_scaled_mv (vec_y mv_cand) scale\<rparr>)"

subsection \<open>The scaling formula as the specification words it\<close>

text \<open>
  The specification gives, for current POC \<open>p\<close>, current reference POC \<open>r\<close>, neighbour POC
  \<open>p'\<close> and neighbour reference POC \<open>r'\<close>:
  \<^verbatim>\<open>
  d  = clip(-128, 127, p - r)
  d' = clip(-128, 127, p' - r')
  scale = clip(-4096, 4095, (d * ((0x4000 + |d'|/2) / d') + 32) >> 6)
  mv.x, mv.y <- clip(-131072, 131071, (scale*mv + 127 + (scale*mv<0)) >> 8)
  \<close>
  over the integers, with \<^verbatim>\<open>/\<close> the truncating division and \<^verbatim>\<open>>>\<close> the arithmetic shift
  of the C program the formula describes.
\<close>

definition spec_mv_scale :: "int \<Rightarrow> int \<Rightarrow> int \<Rightarrow> int \<Rightarrow> int" where
  "spec_mv_scale p r p' r' =
     (let d = CLIP (-128) 127 (p - r);
          d' = CLIP (-128) 127 (p' - r')
      in CLIP (-4096) 4095 ((d * ((0x4000 + \<bar>d'\<bar> div 2) sdiv d') + 32) div 2 ^ 6))"

definition spec_scaled_mv :: "int \<Rightarrow> int \<Rightarrow> int" where
  "spec_scaled_mv scale mv =
     CLIP (-131072) 131071
       ((scale * mv + 127 + (if scale * mv < 0 then 1 else 0)) div 2 ^ 8)"

definition spec_apply_mv_scaling :: "int \<Rightarrow> int \<Rightarrow> int \<Rightarrow> int \<Rightarrow> vector2d \<Rightarrow> vector2d" where
  "spec_apply_mv_scaling p r p' r' mv =
     mv\<lparr>vec_x := spec_scaled_mv (spec_mv_scale p r p' r') (vec_x mv),
        vec_y := spec_scaled_mv (spec_mv_scale p r p' r') (vec_y mv)\<rparr>"


section \<open>Failures\<close>

text \<open>
  The C functions return \<^verbatim>\<open>void\<close> and abort on a failed assertion; an operation whose
  behaviour C leaves undefined (a shift by a negative amount or by the width of the type,
  a read past the end of a table, a left shift of a signed value out of its range) has no
  result either. The model returns \<open>Inl\<close> of the reason in these cases and \<open>Inr\<close> of the
  new state otherwise.
\<close>

datatype error = NotAligned | AssertionFailed | UndefinedBehaviour

definition bindE :: "error + 'a \<Rightarrow> ('a \<Rightarrow> error + 'b) \<Rightarrow> error + 'b" where
  "bindE m f = (case m of Inl e \<Rightarrow> Inl e | Inr v \<Rightarrow> f v)"

text \<open>\<^verbatim>\<open>w >> n\<close> and \<^verbatim>\<open>w << n\<close> on a \<^verbatim>\<open>uint32_t\<close> with an \<^verbatim>\<open>int\<close> shift amount.\<close>

definition shr32 :: "32 word \<Rightarrow> int \<Rightarrow> error + 32 word" where
  "shr32 w n = (if 0 \<le> n \<and> n < 32 then Inr (drop_bit (nat n) w) else Inl UndefinedBehaviour)"

definition shl32 :: "32 word \<Rightarrow> int \<Rightarrow> error + 32 word" where
  "shl32 w n = (if 0 \<le> n \<and> n < 32 then Inr (push_bit (nat n) w) else Inl UndefinedBehaviour)"

text \<open>
  \<^verbatim>\<open>1 << n\<close> on \<^verbatim>\<open>int\<close>: the result must be representable, so \<open>n\<close> is at most 30.
\<close>

definition shl_int_one :: "int \<Rightarrow> error + int" where
  "shl_int_one n = (if 0 \<le> n \<and> n < 31 then Inr (push_bit (nat n) 1) else Inl UndefinedBehaviour)"


section \<open>Bitstream writer\<close>

text \<open>
  Modelled from the spec: the bitstream writer (\<^verbatim>\<open>kvz_bitstream_put\<close>,
  \<^verbatim>\<open>kvz_bitstream_put_byte\<close>, \<^verbatim>\<open>kvz_bitstream_align_zero\<close>, \<^verbatim>\<open>kvz_bitstream_tell\<close>) is
  not among the sources. The specification describes it as an append-only byte buffer
  with a sub-byte cursor: \<^verbatim>\<open>put(value, n_bits)\<close> appends the \<open>n\<close> low bits of the value,
  most significant first; \<^verbatim>\<open>put_byte(b)\<close> requires byte alignment and fails with
  \<^verbatim>\<open>NotAligned\<close> mid-byte; \<^verbatim>\<open>align_zero()\<close> pads with zero bits to the next byte;
  \<^verbatim>\<open>tell()\<close> returns the current bit length. The stream is the list of the bits written
  so far; its bytes are the groups of eight, first bit most significant.
\<close>

type_synonym bitstream = "bool list"

fun low_bits_msb_first :: "32 word \<Rightarrow> nat \<Rightarrow> bool list" where
  "low_bits_msb_first v 0 = []"
| "low_bits_msb_first v (Suc n) = bit v n # low_bits_msb_first v n"

definition kvz_bitstream_put :: "bitstream \<Rightarrow> 32 word \<Rightarrow> nat \<Rightarrow> bitstream" where
  "kvz_bitstream_put stream v bits = stream @ low_bits_msb_first v bits"

definition kvz_bitstream_put_byte :: "bitstream \<Rightarrow> 32 word \<Rightarrow> error + bitstream" where
  "kvz_bitstream_put_byte stream byte =
     (if length stream mod 8 \<noteq> 0 then Inl NotAligned
      else Inr (kvz_bitstream_put stream byte 8))"

definition kvz_bitstream_align_zero :: "bitstream \<Rightarrow> bitstream" where
  "kvz_bitstream_align_zero stream =
     (if length stream mod 8 \<noteq> 0
      then kvz_bitstream_put stream 0 (8 - length stream mod 8) else stream)"

definition kvz_bitstream_tell :: "bitstream \<Rightarrow> nat" where
  "kvz_bitstream_tell stream = length stream"

definition byte_of_bits :: "bool list \<Rightarrow> 8 word" where
  "byte_of_bits bs = foldl (\<lambda>w b. push_bit 1 w OR (if b then 1 else 0)) 0 bs"

fun stream_bytes :: "bitstream \<Rightarrow> 8 word list" where
  "stream_bytes (b7 # b6 # b5 # b4 # b3 # b2 # b1 # b0 # rest) =
     byte_of_bits [b7, b6, b5, b4, b3, b2, b1, b0] # stream_bytes rest"
| "stream_bytes _ = []"


section \<open>CABAC arithmetic coder (cabac.c)\<close>

text \<open>
  \<^verbatim>\<open>cabac_data_t\<close>, with the fields the functions below touch. \<^verbatim>\<open>low\<close>, \<^verbatim>\<open>range\<close> and
  \<^verbatim>\<open>buffered_byte\<close> are \<^verbatim>\<open>uint32_t\<close>; \<^verbatim>\<open>bits_left\<close> and \<^verbatim>\<open>num_buffered_bytes\<close> are
  \<^verbatim>\<open>int32_t\<close> counters that move by at most 8 per call and are kept as integers.
  \<^verbatim>\<open>range\<close> is named \<open>range_c\<close> (\<open>range\<close> is a constant of HOL). \<^verbatim>\<open>cur_ctx\<close> points
  at the context model in use: the field holds that model, of a type \<open>'c\<close> left open
  because the context type and its macros live in an absent header. \<^verbatim>\<open>stream\<close> points
  at the output bitstream: the field holds the stream itself.
\<close>

record 'c cabac_data =
  cur_ctx :: 'c
  low :: "32 word"
  range_c :: "32 word"
  buffered_byte :: "32 word"
  num_buffered_bytes :: int
  bits_left :: int
  only_count :: int
  stream :: bitstream

text \<open>
  The macros \<^verbatim>\<open>CTX_LPS(ctx, range)\<close>, \<^verbatim>\<open>CTX_MPS(ctx)\<close> and \<^verbatim>\<open>CTX_UPDATE(ctx, bin)\<close> are
  defined in the absent header \<^verbatim>\<open>cabac.h\<close>, over tables that are absent too. They are
  parameters of the model: the width of the less probable symbol's interval, the more
  probable symbol, and the updated context model.
\<close>

record 'c ctx_macros =
  CTX_LPS :: "'c \<Rightarrow> 32 word \<Rightarrow> 32 word"
  CTX_MPS :: "'c \<Rightarrow> int"
  CTX_UPDATE :: "'c \<Rightarrow> 32 word \<Rightarrow> 'c"

definition kvz_g_auc_renorm_table :: "nat list" where
  "kvz_g_auc_renorm_table =
     [6, 5, 4, 4, 3, 3, 3, 3, 2, 2, 2, 2, 2, 2, 2, 2,
      1, 1, 1, 1, 1, 1, 1, 1, 1, 1, 1, 1, 1, 1, 1, 1]"

definition renorm_lookup :: "32 word \<Rightarrow> error + nat" where
  "renorm_lookup i =
     (if unat i < 32 then Inr (kvz_g_auc_renorm_table ! unat i) else Inl UndefinedBehaviour)"

definition kvz_tb_max :: "int list" where
  "kvz_tb_max = [0, 0, 1, 1, 2, 2, 2, 2] @ replicate 8 3 @ replicate 16 4 @ replicate 32 5
     @ replicate 64 6 @ replicate 128 7 @ [8]"

text \<open>\<^verbatim>\<open>kvz_cabac_start\<close>: initialize struct cabac\_data.\<close>

definition kvz_cabac_start :: "'c cabac_data \<Rightarrow> 'c cabac_data" where
  "kvz_cabac_start data =
     data\<lparr>low := 0, range_c := 510, bits_left := 23, num_buffered_bytes := 0,
          buffered_byte := 0xff, only_count := 0\<rparr>"

text \<open>
  The loop \<^verbatim>\<open>while (data->num_buffered_bytes > 1) { put_byte(stream, byte);
  data->num_buffered_bytes--; }\<close> of \<^verbatim>\<open>kvz_cabac_write\<close> and \<^verbatim>\<open>kvz_cabac_finish\<close>.
\<close>

function put_buffered_bytes :: "32 word \<Rightarrow> 'c cabac_data \<Rightarrow> error + 'c cabac_data" where
  "put_buffered_bytes byte data =
     (if num_buffered_bytes data > 1
      then (case kvz_bitstream_put_byte (stream data) byte of
              Inl e \<Rightarrow> Inl e
            | Inr s \<Rightarrow> put_buffered_bytes byte
                  (data\<lparr>stream := s, num_buffered_bytes := num_buffered_bytes data - 1\<rparr>))
      else Inr data)"
  by pat_completeness auto
termination
  by (relation "measure (\<lambda>(byte, data). nat (num_buffered_bytes data))") auto

text \<open>\<^verbatim>\<open>kvz_cabac_write\<close>.\<close>

definition kvz_cabac_write :: "'c cabac_data \<Rightarrow> error + 'c cabac_data" where
  "kvz_cabac_write data =
     bindE (shr32 (low data) (24 - bits_left data)) (\<lambda>lead_byte.
     let data = data\<lparr>bits_left := bits_left data + 8\<rparr> in
     bindE (shr32 0xffffffff (bits_left data)) (\<lambda>mask.
     let data = data\<lparr>low := low data AND mask\<rparr> in
     if only_count data \<noteq> 0
     then Inr (data\<lparr>num_buffered_bytes := num_buffered_bytes data + 1\<rparr>)
     else if lead_byte = 0xff
     then Inr (data\<lparr>num_buffered_bytes := num_buffered_bytes data + 1\<rparr>)
     else if num_buffered_bytes data > 0
     then
       let carry = drop_bit 8 lead_byte;
           byte = buffered_byte data + carry;
           data = data\<lparr>buffered_byte := lead_byte AND 0xff\<rparr>
       in bindE (kvz_bitstream_put_byte (stream data) byte) (\<lambda>s.
          let byte = (0xff + carry) AND 0xff
          in put_buffered_bytes byte (data\<lparr>stream := s\<rparr>))
     else Inr (data\<lparr>num_buffered_bytes := 1, buffered_byte := lead_byte\<rparr>)))"

text \<open>\<^verbatim>\<open>kvz_cabac_encode_bin\<close>: a regular bin, coded with the current context model.\<close>

definition kvz_cabac_encode_bin ::
  "'c ctx_macros \<Rightarrow> 'c cabac_data \<Rightarrow> 32 word \<Rightarrow> error + 'c cabac_data" where
  "kvz_cabac_encode_bin M data bin_value =
     (let lps = CTX_LPS M (cur_ctx data) (range_c data);
          data = data\<lparr>range_c := range_c data - lps\<rparr>
      in bindE
           (if (if bin_value \<noteq> 0 then 1 else 0) \<noteq> CTX_MPS M (cur_ctx data)
            then
              bindE (renorm_lookup (drop_bit 3 lps)) (\<lambda>num_bits.
              let data = data\<lparr>low := push_bit num_bits (low data + range_c data)\<rparr>;
                  data = data\<lparr>range_c := push_bit num_bits lps\<rparr>;
                  data = data\<lparr>bits_left := bits_left data - int num_bits\<rparr>
              in if bits_left data < 12 then kvz_cabac_write data else Inr data)
            else if range_c data < 256
            then
              let data = data\<lparr>low := push_bit 1 (low data)\<rparr>;
                  data = data\<lparr>range_c := push_bit 1 (range_c data)\<rparr>;
                  data = data\<lparr>bits_left := bits_left data - 1\<rparr>
              in if bits_left data < 12 then kvz_cabac_write data else Inr data
            else Inr data)
           (\<lambda>data. Inr (data\<lparr>cur_ctx := CTX_UPDATE M (cur_ctx data) bin_value\<rparr>)))"

text \<open>\<^verbatim>\<open>kvz_cabac_finish\<close>.\<close>

definition kvz_cabac_finish :: "'c cabac_data \<Rightarrow> error + 'c cabac_data" where
  "kvz_cabac_finish data =
     (if \<not> bits_left data \<le> 32 then Inl AssertionFailed
      else
        bindE (shr32 (low data) (32 - bits_left data)) (\<lambda>top.
        bindE
          (if top \<noteq> 0
           then
             bindE (kvz_bitstream_put_byte (stream data) (buffered_byte data + 1)) (\<lambda>s.
             bindE (put_buffered_bytes 0 (data\<lparr>stream := s\<rparr>)) (\<lambda>data.
             bindE (shl_int_one (32 - bits_left data)) (\<lambda>one.
             Inr (data\<lparr>low := low data - word_of_int one\<rparr>))))
           else
             bindE
               (if num_buffered_bytes data > 0
                then bindE (kvz_bitstream_put_byte (stream data) (buffered_byte data))
                       (\<lambda>s. Inr (data\<lparr>stream := s\<rparr>))
                else Inr data)
               (\<lambda>data. put_buffered_bytes 0xff data))
          (\<lambda>data.
             let bits = (24 - bits_left data) mod 256
             in Inr (data\<lparr>stream :=
                       kvz_bitstream_put (stream data) (drop_bit 8 (low data)) (nat bits)\<rparr>))))"

text \<open>\<^verbatim>\<open>kvz_cabac_encode_bin_trm\<close>: encode terminating bin.\<close>

definition kvz_cabac_encode_bin_trm :: "'c cabac_data \<Rightarrow> 8 word \<Rightarrow> error + 'c cabac_data" where
  "kvz_cabac_encode_bin_trm data bin_value =
     (let data = data\<lparr>range_c := range_c data - 2\<rparr>
      in if bin_value \<noteq> 0
         then
           let data = data\<lparr>low := low data + range_c data\<rparr>;
               data = data\<lparr>low := push_bit 7 (low data)\<rparr>;
               data = data\<lparr>range_c := push_bit 7 2\<rparr>;
               data = data\<lparr>bits_left := bits_left data - 7\<rparr>
           in if bits_left data < 12 then kvz_cabac_write data else Inr data
         else if range_c data \<ge> 256 then Inr data
         else
           let data = data\<lparr>low := push_bit 1 (low data)\<rparr>;
               data = data\<lparr>range_c := push_bit 1 (range_c data)\<rparr>;
               data = data\<lparr>bits_left := bits_left data - 1\<rparr>
           in if bits_left data < 12 then kvz_cabac_write data else Inr data)"


text \<open>
  The stream is byte aligned when a whole number of bytes has been written:
  the precondition of \<^verbatim>\<open>put_byte\<close>.
\<close>

definition aligned :: "bitstream \<Rightarrow> bool" where
  "aligned s \<longleftrightarrow> length s mod 8 = 0"

text \<open>
  The end of a substream, from \<^verbatim>\<open>encoder_state_worker_encode_lcu_bitstream\<close>
  (encoderstate.c, where the coder's functions carry the prefix \<^verbatim>\<open>uvg_\<close>): the
  terminating bin \<^verbatim>\<open>end_of_sub_stream_one_bit\<close>, \<^verbatim>\<open>finish\<close>, the stop bit
  \<^verbatim>\<open>put(stream, 1, 1)\<close>, the alignment with zero bits, and the restart of the coder.
\<close>

definition end_of_sub_stream :: "'c cabac_data \<Rightarrow> error + 'c cabac_data" where
  "end_of_sub_stream cabac =
     bindE (kvz_cabac_encode_bin_trm cabac 1) (\<lambda>cabac.
     bindE (kvz_cabac_finish cabac) (\<lambda>cabac.
     let cabac = cabac\<lparr>stream := kvz_bitstream_put (stream cabac) 1 1\<rparr>;
         cabac = cabac\<lparr>stream := kvz_bitstream_align_zero (stream cabac)\<rparr>
     in Inr (kvz_cabac_start cabac)))"

text \<open>
  Two concrete inputs for the examples below: a coder freshly initialised by
  \<^verbatim>\<open>kvz_cabac_start\<close> over an empty bitstream, and context macros under which the less
  probable symbol always has width 6 and the more probable symbol is 1.
\<close>

definition cabac_fresh :: "unit cabac_data" where
  "cabac_fresh = kvz_cabac_start
     \<lparr>cur_ctx = (), low = 0, range_c = 0, buffered_byte = 0, num_buffered_bytes = 0,
      bits_left = 0, only_count = 0, stream = []\<rparr>"

definition example_macros :: "unit ctx_macros" where
  "example_macros = \<lparr>CTX_LPS = (\<lambda>c r. 6), CTX_MPS = (\<lambda>c. 1), CTX_UPDATE = (\<lambda>c b. c)\<rparr>"


text \<open>\<^verbatim>\<open>kvz_cabac_encode_bin_ep\<close>: one bypass bin.\<close>

definition kvz_cabac_encode_bin_ep :: "'c cabac_data \<Rightarrow> 32 word \<Rightarrow> error + 'c cabac_data" where
  "kvz_cabac_encode_bin_ep data bin_value =
     (let data = data\<lparr>low := push_bit 1 (low data)\<rparr>;
          data = (if bin_value \<noteq> 0 then data\<lparr>low := low data + range_c data\<rparr> else data);
          data = data\<lparr>bits_left := bits_left data - 1\<rparr>
      in if bits_left data < 12 then kvz_cabac_write data else Inr data)"

text \<open>
  \<^verbatim>\<open>kvz_cabac_encode_aligned_bins_ep\<close>: the loop over \<^verbatim>\<open>rem_bins\<close>, an unsigned
  counter initialised from the \<^verbatim>\<open>int\<close> argument \<^verbatim>\<open>num_bins\<close>.
\<close>

function aligned_bins_ep_loop ::
  "32 word \<Rightarrow> 32 word \<Rightarrow> 'c cabac_data \<Rightarrow> error + 'c cabac_data" where
  "aligned_bins_ep_loop rem_bins bin_values data =
     (if rem_bins > 0
      then
        (let bins_to_code = min rem_bins 8;
             bin_mask = push_bit (unat bins_to_code) 1 - 1
         in case shr32 bin_values (uint (rem_bins - bins_to_code)) of
              Inl e \<Rightarrow> Inl e
            | Inr shifted \<Rightarrow>
                (let new_bins = shifted AND bin_mask;
                     data = data\<lparr>low := push_bit (unat bins_to_code) (low data)
                                          + push_bit 8 new_bins\<rparr>;
                     data = data\<lparr>bits_left := bits_left data - uint bins_to_code\<rparr>
                 in case (if bits_left data < 12 then kvz_cabac_write data else Inr data) of
                      Inl e \<Rightarrow> Inl e
                    | Inr data \<Rightarrow>
                        aligned_bins_ep_loop (rem_bins - bins_to_code) bin_values data))
      else Inr data)"
  by pat_completeness auto
termination
proof (relation "measure (\<lambda>(rem_bins, bin_values, data). unat rem_bins)")
  show "wf (measure (\<lambda>(rem_bins, bin_values, data). unat rem_bins))"
    by simp
next
  fix rem_bins bin_values :: "32 word" and x :: "32 word" and y :: "32 word"
  assume "0 < rem_bins" and "x = min rem_bins 8"
  then have "0 < x" and "x \<le> rem_bins"
    by (auto simp: min_def)
  then have "unat (rem_bins - x) < unat rem_bins"
    by (simp add: unat_sub word_less_nat_alt word_le_nat_alt)
  then show "\<And>(data :: 'c cabac_data) xb xc z w.
      ((rem_bins - x, bin_values, z), (rem_bins, bin_values, data))
        \<in> measure (\<lambda>(rem_bins, bin_values, data). unat rem_bins)"
    by simp
qed

definition kvz_cabac_encode_aligned_bins_ep ::
  "'c cabac_data \<Rightarrow> 32 word \<Rightarrow> int \<Rightarrow> error + 'c cabac_data" where
  "kvz_cabac_encode_aligned_bins_ep data bin_values num_bins =
     aligned_bins_ep_loop (word_of_int num_bins) bin_values data"

text \<open>
  \<^verbatim>\<open>kvz_cabac_encode_bins_ep\<close>: the loop \<^verbatim>\<open>while (num_bins > 8)\<close>, which returns the
  updated \<^verbatim>\<open>num_bins\<close> and \<^verbatim>\<open>bin_values\<close> with the coder, and the function.
\<close>

function bins_ep_loop ::
  "int \<Rightarrow> 32 word \<Rightarrow> 'c cabac_data \<Rightarrow> error + (int \<times> 32 word \<times> 'c cabac_data)" where
  "bins_ep_loop num_bins bin_values data =
     (if num_bins > 8
      then
        (let num_bins = num_bins - 8
         in case shr32 bin_values num_bins of
              Inl e \<Rightarrow> Inl e
            | Inr pattern \<Rightarrow>
                (case shl32 pattern num_bins of
                   Inl e \<Rightarrow> Inl e
                 | Inr shifted \<Rightarrow>
                     (let data = data\<lparr>low := push_bit 8 (low data)\<rparr>;
                          data = data\<lparr>low := low data + range_c data * pattern\<rparr>;
                          bin_values = bin_values - shifted;
                          data = data\<lparr>bits_left := bits_left data - 8\<rparr>
                      in case (if bits_left data < 12 then kvz_cabac_write data else Inr data) of
                           Inl e \<Rightarrow> Inl e
                         | Inr data \<Rightarrow> bins_ep_loop num_bins bin_values data)))
      else Inr (num_bins, bin_values, data))"
  by pat_completeness auto
termination
  by (relation "measure (\<lambda>(num_bins, bin_values, data). nat num_bins)") auto

definition kvz_cabac_encode_bins_ep ::
  "'c cabac_data \<Rightarrow> 32 word \<Rightarrow> int \<Rightarrow> error + 'c cabac_data" where
  "kvz_cabac_encode_bins_ep data bin_values num_bins =
     (if range_c data = 256 then kvz_cabac_encode_aligned_bins_ep data bin_values num_bins
      else
        bindE (bins_ep_loop num_bins bin_values data) (\<lambda>(num_bins, bin_values, data).
        bindE (shl32 (low data) num_bins) (\<lambda>shifted.
        let data = data\<lparr>low := shifted\<rparr>;
            data = data\<lparr>low := low data + range_c data * bin_values\<rparr>;
            data = data\<lparr>bits_left := bits_left data - num_bins\<rparr>
        in if bits_left data < 12 then kvz_cabac_write data else Inr data)))"

text \<open>
  \<^verbatim>\<open>kvz_cabac_encode_trunc_bin\<close>: encode truncated binary code. The loop that finds the
  threshold for \<^verbatim>\<open>max_value > 256\<close> doubles the \<^verbatim>\<open>int\<close> \<^verbatim>\<open>threshVal\<close> from \<^verbatim>\<open>1 << 8\<close>;
  the doubling is undefined once the result leaves the range of \<^verbatim>\<open>int\<close>. \<^verbatim>\<open>threshVal\<close>
  is positive whenever the loop test runs, and the first test of the model only makes the
  recursion total on arguments the program never supplies.
\<close>

function trunc_bin_thresh_loop :: "int \<Rightarrow> int \<Rightarrow> 32 word \<Rightarrow> error + int" where
  "trunc_bin_thresh_loop thresh threshVal max_value =
     (if threshVal \<le> 0 then Inl UndefinedBehaviour
      else if threshVal \<le> uint max_value
      then (if 2 ^ 30 \<le> threshVal then Inl UndefinedBehaviour
            else trunc_bin_thresh_loop (thresh + 1) (2 * threshVal) max_value)
      else Inr thresh)"
  by pat_completeness auto
termination
  by (relation "measure (\<lambda>(thresh, threshVal, max_value). nat (2 ^ 30 - threshVal))") auto

text \<open>
  The macro \<^verbatim>\<open>CABAC_BINS_EP(data, value, bins, name)\<close> is defined in the absent header
  \<^verbatim>\<open>cabac.h\<close>; it is the parameter \<open>BINS_EP\<close> of the model, called with the coder, the
  value (converted to \<^verbatim>\<open>uint32_t\<close>) and the number of bins. The bypass coder
  \<^verbatim>\<open>kvz_cabac_encode_bins_ep\<close> above has this signature.
\<close>

definition kvz_cabac_encode_trunc_bin ::
  "('c cabac_data \<Rightarrow> 32 word \<Rightarrow> int \<Rightarrow> error + 'r) \<Rightarrow>
   'c cabac_data \<Rightarrow> 32 word \<Rightarrow> 32 word \<Rightarrow> error + 'r" where
  "kvz_cabac_encode_trunc_bin BINS_EP data bin_value max_value =
     (let symbol = sint bin_value
      in bindE
           (if max_value > 256
            then bindE (trunc_bin_thresh_loop 8 (push_bit 8 1) max_value)
                   (\<lambda>thresh. Inr (thresh - 1))
            else Inr (kvz_tb_max ! unat max_value))
           (\<lambda>thresh.
              bindE (shl_int_one thresh) (\<lambda>val.
              let b = i32 (uint max_value - val)
              in if symbol < i32 (val - b)
                 then BINS_EP data (word_of_int symbol) thresh
                 else
                   let symbol = i32 (symbol + i32 (val - b))
                   in BINS_EP data (word_of_int symbol) (thresh + 1))))"

text \<open>
  The bin string that a bypass call with \<open>value\<close> and \<open>n\<close> bins codes when the value fits
  \<open>n\<close> bits: its \<open>n\<close> low bits, most significant first (the order in which
  \<^verbatim>\<open>kvz_cabac_encode_aligned_bins_ep\<close> takes them off \<^verbatim>\<open>bin_values\<close>).
\<close>

definition ep_bin_string :: "32 word \<Rightarrow> nat \<Rightarrow> bool list option" where
  "ep_bin_string v n = (if v < 2 ^ n then Some (low_bits_msb_first v n) else None)"

text \<open>Coding a list of bypass bins one at a time with \<^verbatim>\<open>kvz_cabac_encode_bin_ep\<close>.\<close>

fun encode_bins_one_by_one :: "'c cabac_data \<Rightarrow> bool list \<Rightarrow> error + 'c cabac_data" where
  "encode_bins_one_by_one data [] = Inr data"
| "encode_bins_one_by_one data (b # bs) =
     (case kvz_cabac_encode_bin_ep data (if b then 1 else 0) of
        Inl e \<Rightarrow> Inl e
      | Inr data \<Rightarrow> encode_bins_one_by_one data bs)"


section \<open>Frame controller: picture order count (encoderstate.c)\<close>

text \<open>
  The fields of the configuration (\<^verbatim>\<open>uvg_config\<close>) and of the per-frame state
  (\<^verbatim>\<open>state->frame\<close>) that the POC assignment in \<^verbatim>\<open>encoder_state_init_new_frame\<close> reads
  and writes. The array \<^verbatim>\<open>cfg->gop\<close> is a map from the index to the entry. Frame numbers
  and periods are \<^verbatim>\<open>int32_t\<close> values far from the ends of their range and are kept as
  integers; \<^verbatim>\<open>%\<close> is C's remainder \<open>smod\<close>, and each of its uses below is guarded by
  the code against a zero divisor.
\<close>

record uvg_gop_config =
  poc_offset :: int

record uvg_config =
  gop_len :: int
  gop_lowdelay :: bool
  intra_period :: int
  open_gop :: bool
  gop :: "nat \<Rightarrow> uvg_gop_config"

record frame_state =
  num :: int
  gop_offset :: nat
  poc :: int
  is_irap :: bool
  irap_poc :: int

text \<open>
  The blocks \<^verbatim>\<open>// Set POC.\<close> and \<^verbatim>\<open>// Check whether the frame is a keyframe or not.\<close>
  of \<^verbatim>\<open>encoder_state_init_new_frame\<close>. The local flag \<^verbatim>\<open>is_closed_normal_gop\<close> is
  threaded with the frame state. (The call \<^verbatim>\<open>uvg_videoframe_set_poc\<close>, which copies the
  POC into the picture, is left out.)
\<close>

definition encoder_state_init_new_frame_poc :: "uvg_config \<Rightarrow> frame_state \<Rightarrow> frame_state" where
  "encoder_state_init_new_frame_poc cfg frame =
     (let is_closed_normal_gop = False;
          (frame, is_closed_normal_gop) =
            (if num frame = 0 then (frame\<lparr>poc := 0\<rparr>, is_closed_normal_gop)
             else if gop_len cfg \<noteq> 0 \<and> \<not> gop_lowdelay cfg
             then
               (let framenum = num frame - 1
                in if intra_period cfg > 0 \<and> \<not> open_gop cfg
                   then
                     (let is_closed_normal_gop = True
                      in if framenum smod (intra_period cfg + 1) = intra_period cfg
                         then (frame\<lparr>poc := 0\<rparr>, is_closed_normal_gop)
                         else
                           (let framenum = framenum smod (intra_period cfg + 1);
                                poc_offset = poc_offset (gop cfg (gop_offset frame));
                                frame = frame\<lparr>poc := framenum - framenum smod gop_len cfg
                                                       + poc_offset\<rparr>
                            in (frame\<lparr>is_irap := False\<rparr>, is_closed_normal_gop)))
                   else
                     (let poc_offset = poc_offset (gop cfg (gop_offset frame))
                      in (frame\<lparr>poc := framenum - framenum smod gop_len cfg + poc_offset\<rparr>,
                          is_closed_normal_gop)))
             else if intra_period cfg > 1
             then (frame\<lparr>poc := num frame smod intra_period cfg\<rparr>, is_closed_normal_gop)
             else (frame\<lparr>poc := num frame\<rparr>, is_closed_normal_gop));
          frame =
            (if num frame = 0 \<or> poc frame = 0 then frame\<lparr>is_irap := True\<rparr>
             else if \<not> is_closed_normal_gop
             then frame\<lparr>is_irap := (intra_period cfg > 0
                                     \<and> poc frame smod intra_period cfg = 0)\<rparr>
             else frame)
      in if is_irap frame then frame\<lparr>irap_poc := poc frame\<rparr> else frame)"

text \<open>Example inputs: a GOP of 8 pictures with intra period 16, and no GOP at all.\<close>

definition example_gop8 :: uvg_config where
  "example_gop8 = \<lparr>gop_len = 8, gop_lowdelay = False, intra_period = 16, open_gop = False,
     gop = (\<lambda>i. \<lparr>poc_offset = [8, 4, 2, 1, 3, 6, 5, 7] ! (i mod 8)\<rparr>)\<rparr>"

definition example_no_gop :: uvg_config where
  "example_no_gop = \<lparr>gop_len = 0, gop_lowdelay = False, intra_period = 1, open_gop = False,
     gop = (\<lambda>i. \<lparr>poc_offset = 0\<rparr>)\<rparr>"

definition example_frame :: "int \<Rightarrow> nat \<Rightarrow> frame_state" where
  "example_frame n g = \<lparr>num = n, gop_offset = g, poc = 0, is_irap = False, irap_poc = 0\<rparr>"


section \<open>Quantization parameters of the coding units (encoderstate.c)\<close>

text \<open>
  Modelled from the spec: the CU-grid accessors \<^verbatim>\<open>uvg_cu_array_at\<close> and
  \<^verbatim>\<open>uvg_cu_array_at_const\<close> are not among the sources. The specification describes the
  grid as a dense grid of 4x4 smallest-CU records; the record for the pixel \<open>(x, y)\<close> is the
  one of the cell \<open>(x div 4, y div 4)\<close>. The grid is a map from cells to records; of
  \<^verbatim>\<open>cu_info_t\<close> the fields used here are kept (\<^verbatim>\<open>qp\<close> is an \<^verbatim>\<open>int8_t\<close>, \<^verbatim>\<open>cbf\<close> a
  \<^verbatim>\<open>uint16_t\<close>).
\<close>

record cu_info =
  log2_width :: nat
  log2_height :: nat
  cbf :: "16 word"
  qp :: "8 word"

type_synonym cu_array = "int \<times> int \<Rightarrow> cu_info"

definition uvg_cu_array_at :: "cu_array \<Rightarrow> int \<Rightarrow> int \<Rightarrow> cu_info" where
  "uvg_cu_array_at cua x_px y_px = cua (x_px div 4, y_px div 4)"

text \<open>
  What the functions below read of the encoder state, and the constants and helpers
  whose declarations are absent and are therefore parameters: the constants
  \<^verbatim>\<open>LCU_WIDTH\<close> and \<^verbatim>\<open>TR_MAX_WIDTH\<close>, the predicate \<^verbatim>\<open>cbf_is_set_any\<close> on the
  \<^verbatim>\<open>cbf\<close> bits, and \<^verbatim>\<open>is_last_cu_in_qg(state, cu_loc)\<close>. \<^verbatim>\<open>SCU_WIDTH\<close> is the cell
  width 4 of the grid.
\<close>

record cu_loc =
  loc_x :: int
  loc_y :: int
  loc_width :: int
  loc_height :: int

record qp_env =
  LCU_WIDTH :: int
  TR_MAX_WIDTH :: int
  frame_width :: int
  frame_height :: int
  max_qp_delta_depth :: int
  chroma_scale_x :: nat
  chroma_scale_y :: nat
  cbf_is_set_any :: "16 word \<Rightarrow> bool"
  is_last_cu_in_qg :: "cu_loc \<Rightarrow> bool"

definition SCU_WIDTH :: int where
  "SCU_WIDTH = 4"

text \<open>
  \<^verbatim>\<open>uvg_get_cu_ref_qp\<close>. Its locals \<^verbatim>\<open>qg_width\<close>, \<^verbatim>\<open>qg_height\<close> (quantization group
  width and height) and \<^verbatim>\<open>x_qg\<close>, \<^verbatim>\<open>y_qg\<close> (coordinates of the top-left corner of the
  quantization group) are functions of the arguments.
\<close>

definition qg_width :: "qp_env \<Rightarrow> cu_array \<Rightarrow> int \<Rightarrow> int \<Rightarrow> int" where
  "qg_width E cua x y =
     push_bit (nat (max (6 - max_qp_delta_depth E) (int (log2_width (uvg_cu_array_at cua x y))))) 1"

definition qg_height :: "qp_env \<Rightarrow> cu_array \<Rightarrow> int \<Rightarrow> int \<Rightarrow> int" where
  "qg_height E cua x y =
     push_bit (nat (max (6 - max_qp_delta_depth E) (int (log2_height (uvg_cu_array_at cua x y))))) 1"

definition x_qg :: "qp_env \<Rightarrow> cu_array \<Rightarrow> int \<Rightarrow> int \<Rightarrow> int" where
  "x_qg E cua x y = x AND NOT (qg_width E cua x y - 1)"

definition y_qg :: "qp_env \<Rightarrow> cu_array \<Rightarrow> int \<Rightarrow> int \<Rightarrow> int" where
  "y_qg E cua x y = y AND NOT (qg_height E cua x y - 1)"

definition uvg_get_cu_ref_qp :: "qp_env \<Rightarrow> cu_array \<Rightarrow> int \<Rightarrow> int \<Rightarrow> int \<Rightarrow> int" where
  "uvg_get_cu_ref_qp E cua x y last_qp =
     (let x_qg = x_qg E cua x y;
          y_qg = y_qg E cua x y
      in if x_qg = 0 \<and> y_qg > 0 \<and> y_qg smod LCU_WIDTH E = 0
         then sint (qp (uvg_cu_array_at cua x_qg (y_qg - 1)))
         else
           let qp_pred_a = last_qp;
               qp_pred_a = (if x_qg smod LCU_WIDTH E > 0
                            then sint (qp (uvg_cu_array_at cua (x_qg - 1) y_qg))
                            else qp_pred_a);
               qp_pred_b = last_qp;
               qp_pred_b = (if y_qg smod LCU_WIDTH E > 0
                            then sint (qp (uvg_cu_array_at cua x_qg (y_qg - 1)))
                            else qp_pred_b)
           in drop_bit 1 (qp_pred_a + qp_pred_b + 1))"

text \<open>
  Example inputs: 64x64 CTUs, quantization groups of 64x64, a grid of 64x64 CUs without
  coded residual whose cells in the cell row 15 (pixel rows 60 to 63) carry QP 30 and all
  others QP 22.
\<close>

definition example_env :: qp_env where
  "example_env = \<lparr>LCU_WIDTH = 64, TR_MAX_WIDTH = 64, frame_width = 256, frame_height = 256,
     max_qp_delta_depth = 0, chroma_scale_x = 1, chroma_scale_y = 1,
     cbf_is_set_any = (\<lambda>c. c AND 7 \<noteq> 0), is_last_cu_in_qg = (\<lambda>l. True)\<rparr>"

definition example_grid :: cu_array where
  "example_grid = (\<lambda>(cx, cy). \<lparr>log2_width = 6, log2_height = 6, cbf = 0,
     qp = (if cy = 15 then 30 else 22)\<rparr>)"


text \<open>
  The values that the variable of a loop \<^verbatim>\<open>for (v = start; v < limit; v += step)\<close>
  takes. The steps of the loops below are positive (\<^verbatim>\<open>SCU_WIDTH\<close>, or the minimum of
  \<^verbatim>\<open>TR_MAX_WIDTH\<close> and a power of two); with a step that is not positive the C loop would
  not end, and the model stops at once.
\<close>

function for_steps :: "int \<Rightarrow> int \<Rightarrow> int \<Rightarrow> int list" where
  "for_steps v limit step =
     (if v < limit \<and> 0 < step then v # for_steps (v + step) limit step else [])"
  by pat_completeness auto
termination
  by (relation "measure (\<lambda>(v, limit, step). nat (limit - v))") auto

text \<open>
  \<^verbatim>\<open>uvg_cu_loc_ctor\<close> (absent) fills a \<^verbatim>\<open>cu_loc_t\<close> from the position and the size it is
  given; \<^verbatim>\<open>uvg_cu_array_at(...)->qp = qp\<close> stores a QP in the cell of a pixel.
\<close>

definition uvg_cu_loc_ctor :: "int \<Rightarrow> int \<Rightarrow> int \<Rightarrow> int \<Rightarrow> cu_loc" where
  "uvg_cu_loc_ctor x y width height =
     \<lparr>loc_x = x, loc_y = y, loc_width = width, loc_height = height\<rparr>"

definition cu_array_set_qp :: "cu_array \<Rightarrow> int \<Rightarrow> int \<Rightarrow> 8 word \<Rightarrow> cu_array" where
  "cu_array_set_qp cua x_px y_px q =
     cua((x_px div 4, y_px div 4) := (cua (x_px div 4, y_px div 4))\<lparr>qp := q\<rparr>)"

text \<open>
  The leaf branch of \<^verbatim>\<open>set_cu_qps\<close> (the \<^verbatim>\<open>else\<close> of \<^verbatim>\<open>cu_loc->width > width\<close>), in
  two parts: the flag \<^verbatim>\<open>cbf_found\<close> once the coded block flags of the CU have been
  looked at, and the rest of the branch. The two loops over the transform units only
  compute the flag, so they are an existential over the positions they visit.
\<close>

definition cbf_found :: "qp_env \<Rightarrow> cu_array \<Rightarrow> cu_loc \<Rightarrow> int \<Rightarrow> bool" where
  "cbf_found E cua cu_loc prev_qp =
     (let cu = uvg_cu_array_at cua (loc_x cu_loc) (loc_y cu_loc);
          cbf_found = prev_qp \<ge> 0;
          y_limit = loc_y cu_loc + loc_height cu_loc;
          x_limit = loc_x cu_loc + loc_width cu_loc
      in if loc_width cu_loc > TR_MAX_WIDTH E \<or> loc_height cu_loc > TR_MAX_WIDTH E
         then
           (let tu_width = min (TR_MAX_WIDTH E) (push_bit (log2_width cu) 1)
            in cbf_found \<or>
               list_ex (\<lambda>y_scu.
                 list_ex (\<lambda>x_scu. cbf_is_set_any E (cbf (uvg_cu_array_at cua x_scu y_scu)))
                   (for_steps (loc_x cu_loc) x_limit tu_width))
                 (for_steps (loc_y cu_loc) y_limit tu_width))
         else if cbf_is_set_any E (cbf cu) then True
         else cbf_found)"

definition set_cu_qps_leaf ::
  "qp_env \<Rightarrow> cu_array \<Rightarrow> cu_loc \<Rightarrow> int \<Rightarrow> int \<Rightarrow> cu_array \<times> int \<times> int" where
  "set_cu_qps_leaf E cua cu_loc last_qp prev_qp =
     (let cu = uvg_cu_array_at cua (loc_x cu_loc) (loc_y cu_loc);
          y_limit = loc_y cu_loc + loc_height cu_loc;
          x_limit = loc_x cu_loc + loc_width cu_loc;
          (q, prev_qp) =
            (if cbf_found E cua cu_loc prev_qp then (qp cu, sint (qp cu))
             else (word_of_int (uvg_get_cu_ref_qp E cua (loc_x cu_loc) (loc_y cu_loc) last_qp),
                   prev_qp));
          cua = fold (\<lambda>y_scu cua.
                  fold (\<lambda>x_scu cua. cu_array_set_qp cua x_scu y_scu q)
                    (for_steps (loc_x cu_loc) x_limit SCU_WIDTH) cua)
                  (for_steps (loc_y cu_loc) y_limit SCU_WIDTH) cua;
          last_qp = (if is_last_cu_in_qg E cu_loc
                     then sint (qp (uvg_cu_array_at cua (loc_x cu_loc) (loc_y cu_loc)))
                     else last_qp)
      in (cua, last_qp, prev_qp))"

text \<open>
  \<^verbatim>\<open>set_cu_qps\<close>. The recursion follows the CUs stored in the grid and has no bound
  of its own (the halving shifts by the chroma scale of the source, which is 0 for 4:4:4
  material), so the model counts the recursion depth down from a fuel and returns
  \<open>None\<close> when the fuel is used up. The result is the grid with the two values passed
  by pointer, \<^verbatim>\<open>*last_qp\<close> and \<^verbatim>\<open>*prev_qp\<close>.
\<close>

fun set_cu_qps ::
  "nat \<Rightarrow> qp_env \<Rightarrow> cu_array \<Rightarrow> cu_loc \<Rightarrow> int \<Rightarrow> int \<Rightarrow> int
     \<Rightarrow> (cu_array \<times> int \<times> int) option" where
  "set_cu_qps 0 E cua cu_loc last_qp prev_qp depth = None"
| "set_cu_qps (Suc fuel) E cua cu_loc last_qp prev_qp depth =
     (if loc_x cu_loc \<ge> frame_width E \<or> loc_y cu_loc \<ge> frame_height E
      then Some (cua, last_qp, prev_qp)
      else
        let cu = uvg_cu_array_at cua (loc_x cu_loc) (loc_y cu_loc);
            width = push_bit (log2_width cu) 1;
            prev_qp = (if depth \<le> max_qp_delta_depth E then - 1 else prev_qp)
        in if loc_width cu_loc > width
           then
             let half_width = drop_bit (chroma_scale_x E) (loc_width cu_loc);
                 half_height = drop_bit (chroma_scale_y E) (loc_height cu_loc)
             in Option.bind
                  (set_cu_qps fuel E cua
                     (uvg_cu_loc_ctor (loc_x cu_loc) (loc_y cu_loc) half_width half_height)
                     last_qp prev_qp (depth + 1))
                  (\<lambda>(cua, last_qp, prev_qp).
                Option.bind
                  (set_cu_qps fuel E cua
                     (uvg_cu_loc_ctor (loc_x cu_loc + half_width) (loc_y cu_loc)
                        half_width half_height)
                     last_qp prev_qp (depth + 1))
                  (\<lambda>(cua, last_qp, prev_qp).
                Option.bind
                  (set_cu_qps fuel E cua
                     (uvg_cu_loc_ctor (loc_x cu_loc) (loc_y cu_loc + half_height)
                        half_width half_height)
                     last_qp prev_qp (depth + 1))
                  (\<lambda>(cua, last_qp, prev_qp).
                  set_cu_qps fuel E cua
                     (uvg_cu_loc_ctor (loc_x cu_loc + half_width) (loc_y cu_loc + half_height)
                        half_width half_height)
                     last_qp prev_qp (depth + 1))))
           else Some (set_cu_qps_leaf E cua cu_loc last_qp prev_qp))"

text \<open>The QP stored at a pixel once \<^verbatim>\<open>set_cu_qps\<close> has returned.\<close>

definition qp_after :: "(cu_array \<times> int \<times> int) option \<Rightarrow> int \<Rightarrow> int \<Rightarrow> int option" where
  "qp_after res x_px y_px =
     (case res of None \<Rightarrow> None | Some (cua, last_qp, prev_qp) \<Rightarrow>
        Some (sint (qp (uvg_cu_array_at cua x_px y_px))))"

subsection \<open>The walk of \<^verbatim>\<open>set_cu_qps\<close> as a sequence of events\<close>

text \<open>
  \<^verbatim>\<open>set_cu_qps\<close> touches its state in two places only: the reset \<^verbatim>\<open>*prev_qp = -1\<close>
  at a call whose depth is at most \<^verbatim>\<open>max_qp_delta_depth\<close> (the start of a quantization
  group), and the leaf branch. \<open>set_cu_qps_events\<close> follows the same recursion, with the
  same tests in the same order and the same fuel, and lists these two kinds of events in
  the order in which the function reaches them instead of performing them;
  \<open>qp_event_step\<close> performs one event. The function is the run of its events (lemma
  \<open>set_cu_qps_trace\<close> below).
\<close>

datatype qp_event = QG_start | CU_visit cu_loc

fun set_cu_qps_events ::
  "nat \<Rightarrow> qp_env \<Rightarrow> cu_array \<Rightarrow> cu_loc \<Rightarrow> int \<Rightarrow> qp_event list option" where
  "set_cu_qps_events 0 E cua cu_loc depth = None"
| "set_cu_qps_events (Suc fuel) E cua cu_loc depth =
     (if loc_x cu_loc \<ge> frame_width E \<or> loc_y cu_loc \<ge> frame_height E
      then Some []
      else
        let cu = uvg_cu_array_at cua (loc_x cu_loc) (loc_y cu_loc);
            width = push_bit (log2_width cu) 1;
            reset = (if depth \<le> max_qp_delta_depth E then [QG_start] else [])
        in if loc_width cu_loc > width
           then
             let half_width = drop_bit (chroma_scale_x E) (loc_width cu_loc);
                 half_height = drop_bit (chroma_scale_y E) (loc_height cu_loc)
             in Option.bind
                  (set_cu_qps_events fuel E cua
                     (uvg_cu_loc_ctor (loc_x cu_loc) (loc_y cu_loc) half_width half_height)
                     (depth + 1))
                  (\<lambda>evs1.
                Option.bind
                  (set_cu_qps_events fuel E cua
                     (uvg_cu_loc_ctor (loc_x cu_loc + half_width) (loc_y cu_loc)
                        half_width half_height)
                     (depth + 1))
                  (\<lambda>evs2.
                Option.bind
                  (set_cu_qps_events fuel E cua
                     (uvg_cu_loc_ctor (loc_x cu_loc) (loc_y cu_loc + half_height)
                        half_width half_height)
                     (depth + 1))
                  (\<lambda>evs3.
                Option.bind
                  (set_cu_qps_events fuel E cua
                     (uvg_cu_loc_ctor (loc_x cu_loc + half_width) (loc_y cu_loc + half_height)
                        half_width half_height)
                     (depth + 1))
                  (\<lambda>evs4. Some (reset @ evs1 @ evs2 @ evs3 @ evs4)))))
           else Some (reset @ [CU_visit cu_loc]))"

fun qp_event_step ::
  "qp_env \<Rightarrow> qp_event \<Rightarrow> cu_array \<times> int \<times> int \<Rightarrow> cu_array \<times> int \<times> int" where
  "qp_event_step E QG_start (cua, last_qp, prev_qp) = (cua, last_qp, - 1)"
| "qp_event_step E (CU_visit cu_loc) (cua, last_qp, prev_qp) =
     set_cu_qps_leaf E cua cu_loc last_qp prev_qp"

text \<open>
  The CUs visited since the last start of a quantization group: the part of the current
  group that the walk has been through.
\<close>

definition group_so_far :: "qp_event list \<Rightarrow> cu_loc list" where
  "group_so_far evs =
     foldl (\<lambda>group ev. case ev of QG_start \<Rightarrow> [] | CU_visit cu_loc \<Rightarrow> group @ [cu_loc]) [] evs"

text \<open>
  Whether a CU has any coded block flag set: the flag \<^verbatim>\<open>cbf_found\<close> that the leaf branch
  computes for it when no QP has been coded in the group before (\<^verbatim>\<open>*prev_qp\<close> is -1).
  And the QP that the grid stores for a CU, \<^verbatim>\<open>cu->qp\<close> of the record at its origin.
\<close>

definition cu_has_cbf :: "qp_env \<Rightarrow> cu_array \<Rightarrow> cu_loc \<Rightarrow> bool" where
  "cu_has_cbf E cua cu_loc = cbf_found E cua cu_loc (- 1)"

definition stored_qp :: "cu_array \<Rightarrow> cu_loc \<Rightarrow> int" where
  "stored_qp cua cu_loc = sint (qp (uvg_cu_array_at cua (loc_x cu_loc) (loc_y cu_loc)))"

text \<open>
  The region of a leaf call is a CU of the grid: the record at its origin has the width
  and the height of the region, and the CU is at least 4x4 and lies on the 4x4 grid. This
  holds at every leaf call when the CTU is partitioned by quad splits only. The test
  \<^verbatim>\<open>cu_loc->width > width\<close> compares widths only, so below a binary or ternary split the
  region at which the recursion stops need not be a CU.
\<close>

definition region_is_cu :: "cu_array \<Rightarrow> cu_loc \<Rightarrow> bool" where
  "region_is_cu cua cu_loc =
     (let cu = uvg_cu_array_at cua (loc_x cu_loc) (loc_y cu_loc)
      in loc_width cu_loc = push_bit (log2_width cu) 1
         \<and> loc_height cu_loc = push_bit (log2_height cu) 1
         \<and> 2 \<le> log2_width cu \<and> 2 \<le> log2_height cu
         \<and> loc_x cu_loc mod 4 = 0 \<and> loc_y cu_loc mod 4 = 0)"

text \<open>
  Regions as rectangles of pixels (one inside another, two apart from each other) and the
  cells of the grid that an aligned region covers.
\<close>

definition region_inside :: "cu_loc \<Rightarrow> cu_loc \<Rightarrow> bool" where
  "region_inside a b \<longleftrightarrow>
     loc_x b \<le> loc_x a \<and> loc_x a + loc_width a \<le> loc_x b + loc_width b
     \<and> loc_y b \<le> loc_y a \<and> loc_y a + loc_height a \<le> loc_y b + loc_height b"

definition regions_apart :: "cu_loc \<Rightarrow> cu_loc \<Rightarrow> bool" where
  "regions_apart a b \<longleftrightarrow>
     loc_x a + loc_width a \<le> loc_x b \<or> loc_x b + loc_width b \<le> loc_x a
     \<or> loc_y a + loc_height a \<le> loc_y b \<or> loc_y b + loc_height b \<le> loc_y a"

fun events_apart :: "qp_event \<Rightarrow> qp_event \<Rightarrow> bool" where
  "events_apart (CU_visit a) (CU_visit b) = regions_apart a b"
| "events_apart _ _ = True"

definition region_cells :: "cu_loc \<Rightarrow> (int \<times> int) set" where
  "region_cells a =
     {(cx, cy). loc_x a div 4 \<le> cx \<and> cx < (loc_x a + loc_width a) div 4
        \<and> loc_y a div 4 \<le> cy \<and> cy < (loc_y a + loc_height a) div 4}"

definition aligned4 :: "cu_loc \<Rightarrow> bool" where
  "aligned4 a \<longleftrightarrow>
     loc_x a mod 4 = 0 \<and> loc_y a mod 4 = 0 \<and> loc_width a mod 4 = 0 \<and> loc_height a mod 4 = 0"

text \<open>
  More example inputs. Quantization groups of 32x32 (\<^verbatim>\<open>max_qp_delta_depth\<close> 1) and a
  grid whose first group is split into four 16x16 CUs storing QP 25, the second of which
  (at \<open>(16, 0)\<close>) has a coded block flag; everywhere else 32x32 CUs without coded block
  flag storing QP 27. And a grid of 64x32 CUs storing QP 30 (every CTU split once by a
  horizontal binary split) in which the lower CU of the first CTU row has a coded block
  flag.
\<close>

definition example_env_qg32 :: qp_env where
  "example_env_qg32 = example_env\<lparr>max_qp_delta_depth := 1\<rparr>"

definition example_grid16 :: cu_array where
  "example_grid16 = (\<lambda>(cx, cy).
     if 0 \<le> cx \<and> cx < 8 \<and> 0 \<le> cy \<and> cy < 8
     then \<lparr>log2_width = 4, log2_height = 4,
            cbf = (if 4 \<le> cx \<and> cy < 4 then 1 else 0), qp = 25\<rparr>
     else \<lparr>log2_width = 5, log2_height = 5, cbf = 0, qp = 27\<rparr>)"

definition example_grid64x32 :: cu_array where
  "example_grid64x32 = (\<lambda>(cx, cy). \<lparr>log2_width = 6, log2_height = 5,
     cbf = (if 8 \<le> cy \<and> cy < 16 then 1 else 0), qp = 30\<rparr>)"


section \<open>The CTU jobs (encoderstate.c)\<close>

text \<open>
  \<^verbatim>\<open>lcu_order_element_t\<close>: one CTU of a leaf encoder state, with its index in the state's
  coding order (in a wavefront row: its column), its position in pixels and its flags.
\<close>

record lcu_order_element =
  index :: int
  position_px_x :: int
  position_px_y :: int
  last_column :: bool
  last_row :: bool

datatype uvg_slice_type = UVG_SLICE_B | UVG_SLICE_P | UVG_SLICE_I

subsection \<open>The search job and the HMVP lookup table\<close>

text \<open>
  Of the frame (\<^verbatim>\<open>state->tile->frame\<close>) the search job's handling of the HMVP tables
  touches four arrays: the lookup tables \<^verbatim>\<open>hmvp_lut\<close> and \<^verbatim>\<open>hmvp_lut_ibc\<close>, which
  hold \<^verbatim>\<open>MAX_NUM_HMVP_CANDS\<close> entries for every CTU row, and the fill counts
  \<^verbatim>\<open>hmvp_size\<close> and \<^verbatim>\<open>hmvp_size_ibc\<close>, one per CTU row. An array is a map from the
  index to the element. Everything else that the job reads or changes (CU grid, pixels,
  buffers, hash maps, coder) is the field \<open>rest\<close>, of a type left open, as is the type
  \<open>'cu\<close> of the table entries.
\<close>

record ('cu, 'r) videoframe =
  hmvp_lut :: "nat \<Rightarrow> 'cu"
  hmvp_size :: "nat \<Rightarrow> 8 word"
  hmvp_lut_ibc :: "nat \<Rightarrow> 'cu"
  hmvp_size_ibc :: "nat \<Rightarrow> 8 word"
  rest :: 'r

text \<open>
  Modelled from the spec: the constant \<^verbatim>\<open>MAX_NUM_HMVP_CANDS\<close> is declared in an absent
  header; the specification gives the table five entries per CTU row (and the code names
  the offset \<^verbatim>\<open>ctu_row_mul_five\<close>).
\<close>

definition MAX_NUM_HMVP_CANDS :: nat where
  "MAX_NUM_HMVP_CANDS = 5"

text \<open>
  \<^verbatim>\<open>memcpy(buf, &array[off], n * sizeof(elem))\<close> and \<^verbatim>\<open>memcpy(&array[off], buf, n *
  sizeof(elem))\<close> on an array and a local buffer \<open>buf\<close> of \<open>n\<close> elements.
\<close>

definition array_read :: "(nat \<Rightarrow> 'a) \<Rightarrow> nat \<Rightarrow> nat \<Rightarrow> 'a list" where
  "array_read a off n = map (\<lambda>k. a (off + k)) [0..<n]"

definition array_write :: "(nat \<Rightarrow> 'a) \<Rightarrow> nat \<Rightarrow> 'a list \<Rightarrow> (nat \<Rightarrow> 'a)" where
  "array_write a off buf = (\<lambda>i. if off \<le> i \<and> i < off + length buf then buf ! (i - off) else a i)"

text \<open>
  The collaborators of the search job, which are not among the sources and are
  parameters: the QP and lambda assignment of the rate controller
  (\<^verbatim>\<open>uvg_set_lcu_lambda_and_qp\<close> or \<^verbatim>\<open>uvg_set_ctu_qp_lambda\<close>), the hashing of the CTU
  into the IBC hash map, the search \<^verbatim>\<open>uvg_search_lcu\<close> itself, the steps after the
  restore (copy of the reconstruction to the buffers, QP propagation, LMCS, deblocking,
  SAO), and the simulated bitstream pass that closes the job when ALF is on. Each takes the
  CTU and the frame and returns the frame. \<^verbatim>\<open>LOG2_LCU_WIDTH\<close> is an absent constant.
  \<^verbatim>\<open>cfg.ibc\<close> and \<^verbatim>\<open>cfg.alf_type\<close> are the two configuration fields read, and the slice
  type is \<^verbatim>\<open>state->frame->slicetype\<close>.
\<close>

record ('cu, 'r) lcu_search_env =
  LOG2_LCU_WIDTH :: nat
  set_lcu_lambda_and_qp ::
    "lcu_order_element \<Rightarrow> ('cu, 'r) videoframe \<Rightarrow> ('cu, 'r) videoframe"
  ibc_hash_lcu :: "lcu_order_element \<Rightarrow> ('cu, 'r) videoframe \<Rightarrow> ('cu, 'r) videoframe"
  uvg_search_lcu :: "lcu_order_element \<Rightarrow> ('cu, 'r) videoframe \<Rightarrow> ('cu, 'r) videoframe"
  after_search :: "lcu_order_element \<Rightarrow> ('cu, 'r) videoframe \<Rightarrow> ('cu, 'r) videoframe"
  simulated_bitstream ::
    "lcu_order_element \<Rightarrow> ('cu, 'r) videoframe \<Rightarrow> ('cu, 'r) videoframe"

record search_cfg =
  ibc :: int
  alf_type :: int

text \<open>
  \<^verbatim>\<open>encoder_state_worker_encode_lcu_search\<close>. The buffers \<^verbatim>\<open>original_lut\<close> and
  \<^verbatim>\<open>original_lut_ibc\<close> are filled only under the conditions under which they are read
  back; where the C buffer stays uninitialised the model has the empty list.
\<close>

definition encoder_state_worker_encode_lcu_search ::
  "('cu, 'r) lcu_search_env \<Rightarrow> search_cfg \<Rightarrow> uvg_slice_type \<Rightarrow> lcu_order_element
     \<Rightarrow> ('cu, 'r) videoframe \<Rightarrow> ('cu, 'r) videoframe" where
  "encoder_state_worker_encode_lcu_search X cfg slicetype lcu frame =
     (let frame = set_lcu_lambda_and_qp X lcu frame;
          ctu_row = nat (drop_bit (LOG2_LCU_WIDTH X) (position_px_y lcu));
          ctu_row_mul_five = ctu_row * MAX_NUM_HMVP_CANDS;
          original_lut_size = hmvp_size frame ctu_row;
          original_lut_size_ibc = hmvp_size_ibc frame ctu_row;
          original_lut =
            (if slicetype \<noteq> UVG_SLICE_I
             then array_read (hmvp_lut frame) ctu_row_mul_five MAX_NUM_HMVP_CANDS else []);
          original_lut_ibc =
            (if ibc cfg \<noteq> 0
             then array_read (hmvp_lut_ibc frame) ctu_row_mul_five MAX_NUM_HMVP_CANDS else []);
          frame = (if ibc cfg AND 2 \<noteq> 0 then ibc_hash_lcu X lcu frame else frame);
          frame = uvg_search_lcu X lcu frame;
          frame =
            (if slicetype \<noteq> UVG_SLICE_I
             then frame\<lparr>hmvp_lut := array_write (hmvp_lut frame) ctu_row_mul_five original_lut,
                        hmvp_size := (hmvp_size frame)(ctu_row := original_lut_size)\<rparr>
             else frame);
          frame =
            (if ibc cfg \<noteq> 0
             then frame\<lparr>hmvp_lut_ibc :=
                          array_write (hmvp_lut_ibc frame) ctu_row_mul_five original_lut_ibc,
                        hmvp_size_ibc := (hmvp_size_ibc frame)(ctu_row := original_lut_size_ibc)\<rparr>
             else frame);
          frame = after_search X lcu frame
      in if alf_type cfg \<noteq> 0 then simulated_bitstream X lcu frame else frame)"

text \<open>
  An example: 64x64 CTUs, tables of natural numbers, a search that overwrites every
  entry of both tables and every fill count, and collaborators that change nothing.
\<close>

definition example_search_env :: "(nat, unit) lcu_search_env" where
  "example_search_env =
     \<lparr>LOG2_LCU_WIDTH = 6,
      set_lcu_lambda_and_qp = (\<lambda>lcu frame. frame),
      ibc_hash_lcu = (\<lambda>lcu frame. frame),
      uvg_search_lcu = (\<lambda>lcu frame.
         frame\<lparr>hmvp_lut := (\<lambda>i. 99), hmvp_size := (\<lambda>r. 5),
               hmvp_lut_ibc := (\<lambda>i. 98), hmvp_size_ibc := (\<lambda>r. 4)\<rparr>),
      after_search = (\<lambda>lcu frame. frame),
      simulated_bitstream = (\<lambda>lcu frame. frame)\<rparr>"

definition example_videoframe :: "(nat, unit) videoframe" where
  "example_videoframe =
     \<lparr>hmvp_lut = (\<lambda>i. i), hmvp_size = (\<lambda>r. 2), hmvp_lut_ibc = (\<lambda>i. 2 * i),
      hmvp_size_ibc = (\<lambda>r. 1), rest = ()\<rparr>"

definition example_lcu :: "int \<Rightarrow> int \<Rightarrow> lcu_order_element" where
  "example_lcu col row = \<lparr>index = col, position_px_x = 64 * col, position_px_y = 64 * row,
     last_column = False, last_row = False\<rparr>"

text \<open>
  A collaborator keeps the HMVP tables when the four arrays are the same after it as
  before it, whatever the frame.
\<close>

definition keeps_hmvp :: "(('cu, 'r) videoframe \<Rightarrow> ('cu, 'r) videoframe) \<Rightarrow> bool" where
  "keeps_hmvp f \<longleftrightarrow>
     (\<forall>g. hmvp_lut (f g) = hmvp_lut g \<and> hmvp_size (f g) = hmvp_size g
          \<and> hmvp_lut_ibc (f g) = hmvp_lut_ibc g \<and> hmvp_size_ibc (f g) = hmvp_size_ibc g)"

subsection \<open>The bitstream job and the hand-off of the contexts between wavefront rows\<close>

text \<open>
  Of an encoder state the hand-off reads the type and the row \<^verbatim>\<open>wfrow->lcu_offset_y\<close>
  and copies the context models \<^verbatim>\<open>cabac.ctx\<close>, of a type \<open>'x\<close> left open. The states of
  the rows are the children of one parent: \<^verbatim>\<open>state->parent->children\<close> is the list of
  them (the C array ends with an entry whose \<^verbatim>\<open>encoder_control\<close> is null), and the
  state of the job is the child number \<open>i\<close>.
\<close>

datatype encoder_state_type =
  ENCODER_STATE_TYPE_INVALID | ENCODER_STATE_TYPE_MAIN | ENCODER_STATE_TYPE_SLICE
  | ENCODER_STATE_TYPE_TILE | ENCODER_STATE_TYPE_WAVEFRONT_ROW

record 'x encoder_state =
  state_type :: encoder_state_type
  wfrow_lcu_offset_y :: int
  cabac_ctx :: 'x

text \<open>
  Modelled from the spec: \<^verbatim>\<open>uvg_context_copy\<close> is not among the sources; the
  specification has \<^verbatim>\<open>copy_contexts(dst, src)\<close> replace the context models of \<open>dst\<close>
  with those of \<open>src\<close>.
\<close>

definition uvg_context_copy :: "'x encoder_state \<Rightarrow> 'x encoder_state \<Rightarrow> 'x encoder_state" where
  "uvg_context_copy target_state source_state =
     target_state\<lparr>cabac_ctx := cabac_ctx source_state\<rparr>"

text \<open>
  \<^verbatim>\<open>encoder_state_worker_encode_lcu_bitstream\<close>. What precedes the hand-off (the syntax
  of SAO, ALF and the coding tree, the end of the substream, the bit statistics) acts on
  the contexts of the job's own state only; its effect on them is the parameter
  \<open>code_lcu\<close>. The loop over \<open>j\<close> then visits every child.
\<close>

definition encoder_state_worker_encode_lcu_bitstream ::
  "(lcu_order_element \<Rightarrow> 'x \<Rightarrow> 'x) \<Rightarrow> lcu_order_element \<Rightarrow> nat
     \<Rightarrow> 'x encoder_state list \<Rightarrow> 'x encoder_state list" where
  "encoder_state_worker_encode_lcu_bitstream code_lcu lcu i children =
     (let state = children ! i;
          children = children[i := state\<lparr>cabac_ctx := code_lcu lcu (cabac_ctx state)\<rparr>]
      in if state_type (children ! i) = ENCODER_STATE_TYPE_WAVEFRONT_ROW \<and> index lcu = 0
         then
           fold (\<lambda>j children.
                   if wfrow_lcu_offset_y (children ! j) = wfrow_lcu_offset_y (children ! i) + 1
                   then children[j := uvg_context_copy (children ! j) (children ! i)]
                   else children)
             [0..<length children] children
         else children)"

text \<open>
  The bitstream jobs of CTUs of one row, run one after the other in the order given (as
  \<^verbatim>\<open>encoder_state_encode_leaf\<close> runs or schedules them).
\<close>

definition encode_lcus_bitstream ::
  "(lcu_order_element \<Rightarrow> 'x \<Rightarrow> 'x) \<Rightarrow> lcu_order_element list \<Rightarrow> nat
     \<Rightarrow> 'x encoder_state list \<Rightarrow> 'x encoder_state list" where
  "encode_lcus_bitstream code_lcu lcus i children =
     fold (\<lambda>lcu children. encoder_state_worker_encode_lcu_bitstream code_lcu lcu i children)
       lcus children"

text \<open>
  An example: two wavefront rows whose contexts are the numbers 10 and 0, and a coding
  step that adds one to the contexts for every CTU it emits.
\<close>

definition example_rows :: "nat encoder_state list" where
  "example_rows =
     [\<lparr>state_type = ENCODER_STATE_TYPE_WAVEFRONT_ROW, wfrow_lcu_offset_y = 0, cabac_ctx = 10\<rparr>,
      \<lparr>state_type = ENCODER_STATE_TYPE_WAVEFRONT_ROW, wfrow_lcu_offset_y = 1, cabac_ctx = 0\<rparr>]"

definition example_code_lcu :: "lcu_order_element \<Rightarrow> nat \<Rightarrow> nat" where
  "example_code_lcu lcu c = c + 1"


section \<open>Facts about the machine integers\<close>

lemma i32_id: "fits_i32 v \<Longrightarrow> i32 v = v"
  unfolding i32_def fits_i32_def
  by (simp add: signed_take_bit_int_eq_self)

lemma CLIP_bounds: "lo \<le> hi \<Longrightarrow> lo \<le> CLIP lo hi v \<and> CLIP lo hi v \<le> hi"
  unfolding CLIP_def by auto


section \<open>Motion vector scaling: results\<close>

lemma scale_product_fits:
  assumes s: "- 4096 \<le> s" "s \<le> 4095" and m: "- (2 ^ 19) < m" "m < 2 ^ 19"
  shows "fits_i32 (s * m)" and "fits_i32 (s * m + 127 + (if s * m < 0 then 1 else 0))"
proof -
  have "\<bar>s * m\<bar> = \<bar>s\<bar> * \<bar>m\<bar>" by (simp add: abs_mult)
  also have "\<dots> \<le> 4096 * \<bar>m\<bar>"
    using s by (intro mult_right_mono) auto
  also have "\<dots> \<le> 4096 * (2 ^ 19 - 1)"
    using m by simp
  finally have b: "\<bar>s * m\<bar> \<le> 4096 * (2 ^ 19 - 1)" .
  from b show "fits_i32 (s * m)"
    unfolding fits_i32_def by (simp add: abs_le_iff)
  from b show "fits_i32 (s * m + 127 + (if s * m < 0 then 1 else 0))"
    unfolding fits_i32_def by (simp add: abs_le_iff)
qed

lemma get_scaled_mv_spec:
  assumes "- 4096 \<le> s" "s \<le> 4095" "- (2 ^ 19) < m" "m < 2 ^ 19"
  shows "get_scaled_mv m s = spec_scaled_mv s m"
  using scale_product_fits [OF assms]
  by (simp add: get_scaled_mv_def spec_scaled_mv_def Let_def i32_id drop_bit_eq_div)

text \<open>
  Claim C9. Whenever the two POC distances are equal, or the neighbour's distance is zero,
  \<^verbatim>\<open>apply_mv_scaling\<close> hands the candidate back exactly as it came: no scaling and no
  clipping, whatever the size of the distance \<open>p - r\<close> or of the vector.
\<close>

theorem apply_mv_scaling_unchanged:
  assumes "p - r = p' - r' \<or> p' - r' = 0"
  shows "apply_mv_scaling p r p' r' mv = mv"
  using assms by (auto simp: apply_mv_scaling_def Let_def i32_def)

theorem apply_mv_scaling_unchanged_witness:
  "((1000::int) - 0 = 1000 - 0 \<or> (1000::int) - 0 = 0)
   \<and> \<not> ((1000::int) - 0 \<le> 127)
   \<and> apply_mv_scaling 1000 0 1000 0 \<lparr>vec_x = 200000, vec_y = - 7\<rparr>
       = \<lparr>vec_x = 200000, vec_y = - 7\<rparr>
   \<and> apply_mv_scaling 9 4 6 6 \<lparr>vec_x = 200000, vec_y = - 7\<rparr>
       = \<lparr>vec_x = 200000, vec_y = - 7\<rparr>"
  using apply_mv_scaling_unchanged [of 1000 0 1000 0 "\<lparr>vec_x = 200000, vec_y = - 7\<rparr>"]
    apply_mv_scaling_unchanged [of 9 4 6 6 "\<lparr>vec_x = 200000, vec_y = - 7\<rparr>"]
  by simp

text \<open>
  Claim C3, as amended. For every POC quadruple with \<open>p - r \<noteq> 0\<close>, \<open>p' - r' \<noteq> 0\<close> and
  \<open>p - r \<noteq> p' - r'\<close> (equal distances take the early return of claim C9 instead), with
  POC distances that fit 32 bits and vector components below \<open>2\<^sup>1\<^sup>9\<close> in magnitude (so that
  \<open>scale * mv\<close> fits 32 bits), \<^verbatim>\<open>apply_mv_scaling\<close> returns exactly what the formula of the
  specification gives for both components.
\<close>

theorem apply_mv_scaling_spec:
  assumes "p - r \<noteq> 0" and "p' - r' \<noteq> 0" and "p - r \<noteq> p' - r'"
    and "fits_i32 (p - r)" and "fits_i32 (p' - r')"
    and "- (2 ^ 19) < vec_x mv" "vec_x mv < 2 ^ 19"
    and "- (2 ^ 19) < vec_y mv" "vec_y mv < 2 ^ 19"
  shows "apply_mv_scaling p r p' r' mv = spec_apply_mv_scaling p r p' r' mv"
proof -
  let ?s = "spec_mv_scale p r p' r'"
  have sb: "- 4096 \<le> ?s \<and> ?s \<le> 4095"
    unfolding spec_mv_scale_def Let_def by (rule CLIP_bounds) simp
  have "apply_mv_scaling p r p' r' mv =
      mv\<lparr>vec_x := get_scaled_mv (vec_x mv) ?s, vec_y := get_scaled_mv (vec_y mv) ?s\<rparr>"
    using assms(1-5)
    by (simp add: apply_mv_scaling_def spec_mv_scale_def Let_def i32_id drop_bit_eq_div)
  then show ?thesis
    using sb assms(6-9) by (simp add: spec_apply_mv_scaling_def get_scaled_mv_spec)
qed

text \<open>
  The literal scenario of the specification: \<open>(p, r, p', r') = (4, 0, 4, 2)\<close> with the
  vector \<open>(40, 0)\<close> gives scale 512 and the vector \<open>(80, 0)\<close>.
\<close>

theorem apply_mv_scaling_spec_witness:
  "(4::int) - 0 \<noteq> 0 \<and> (4::int) - 2 \<noteq> 0 \<and> (4::int) - 0 \<noteq> 4 - 2
   \<and> fits_i32 (4 - 0) \<and> fits_i32 (4 - 2)
   \<and> spec_mv_scale 4 0 4 2 = 512
   \<and> apply_mv_scaling 4 0 4 2 \<lparr>vec_x = 40, vec_y = 0\<rparr> = \<lparr>vec_x = 80, vec_y = 0\<rparr>"
proof -
  have f: "fits_i32 (4 - 0)" "fits_i32 (4 - 2)"
    by (simp_all add: fits_i32_def)
  have s: "spec_mv_scale 4 0 4 2 = 512"
    by (simp add: spec_mv_scale_def CLIP_def signed_divide_int_def)
  have v: "spec_apply_mv_scaling 4 0 4 2 \<lparr>vec_x = 40, vec_y = 0\<rparr> = \<lparr>vec_x = 80, vec_y = 0\<rparr>"
    by (simp add: spec_apply_mv_scaling_def s spec_scaled_mv_def CLIP_def)
  have "apply_mv_scaling 4 0 4 2 \<lparr>vec_x = 40, vec_y = 0\<rparr> = \<lparr>vec_x = 80, vec_y = 0\<rparr>"
    using apply_mv_scaling_spec [of 4 0 4 2 "\<lparr>vec_x = 40, vec_y = 0\<rparr>", OF _ _ _ f]
    by (simp add: v)
  with f s show ?thesis by simp
qed

text \<open>
  The claim as first stated (every quadruple with \<open>p - r \<noteq> 0\<close> and \<open>p' - r' \<noteq> 0\<close>) fails
  where the two distances are equal: with both distances 99 the formula's scale is 255, not
  256, and it turns the component 256 into 255, while the code returns the vector untouched.
\<close>

theorem apply_mv_scaling_spec_counterexample:
  "(99::int) - 0 \<noteq> 0
   \<and> spec_mv_scale 99 0 99 0 = 255
   \<and> spec_apply_mv_scaling 99 0 99 0 \<lparr>vec_x = 256, vec_y = 0\<rparr> = \<lparr>vec_x = 255, vec_y = 0\<rparr>
   \<and> apply_mv_scaling 99 0 99 0 \<lparr>vec_x = 256, vec_y = 0\<rparr> = \<lparr>vec_x = 256, vec_y = 0\<rparr>"
  by (simp add: apply_mv_scaling_def spec_apply_mv_scaling_def spec_mv_scale_def
      spec_scaled_mv_def CLIP_def Let_def i32_def signed_divide_int_def)

section \<open>CABAC: results\<close>

lemma renorm_table_nth:
  "i < 32 \<Longrightarrow> kvz_g_auc_renorm_table ! i =
     (if i = 0 then 6 else if i = 1 then 5 else if i < 4 then 4 else if i < 8 then 3
      else if i < 16 then 2 else 1)"
  unfolding kvz_g_auc_renorm_table_def
  by (simp add: nth_Cons' )

lemma unat_push_bit_mod:
  "unat (push_bit n (w :: 'a::len word)) = (unat w * 2 ^ n) mod 2 ^ LENGTH('a)"
  unfolding unsigned_push_bit_eq by (simp add: take_bit_eq_mod push_bit_eq_mult)

lemma lps_renorm_range:
  fixes lps :: "32 word"
  assumes "4 \<le> lps" "lps \<le> 255"
  shows "renorm_lookup (drop_bit 3 lps) = Inr (kvz_g_auc_renorm_table ! (unat lps div 8))"
    and "256 \<le> push_bit (kvz_g_auc_renorm_table ! (unat lps div 8)) lps"
    and "push_bit (kvz_g_auc_renorm_table ! (unat lps div 8)) lps \<le> 510"
proof -
  have u: "4 \<le> unat lps" "unat lps \<le> 255"
    using assms by (simp_all add: word_le_nat_alt)
  have d: "unat (drop_bit 3 lps) = unat lps div 8"
    by (simp add: unat_drop_bit_eq drop_bit_eq_div unat_div)
  have i: "unat lps div 8 < 32" using u by simp
  show "renorm_lookup (drop_bit 3 lps) = Inr (kvz_g_auc_renorm_table ! (unat lps div 8))"
    using i by (simp add: renorm_lookup_def d)
  let ?k = "kvz_g_auc_renorm_table ! (unat lps div 8)"
  have k: "?k \<le> 6" using i by (simp add: renorm_table_nth)
  have b: "256 \<le> unat lps * 2 ^ ?k \<and> unat lps * 2 ^ ?k \<le> 510"
    using u i by (auto simp add: renorm_table_nth split: if_splits)
  have "unat (push_bit ?k lps) = unat lps * 2 ^ ?k"
    using b by (simp add: unat_push_bit_mod)
  then show "256 \<le> push_bit ?k lps" "push_bit ?k lps \<le> 510"
    using b by (simp_all add: word_le_nat_alt)
qed


lemma bindE_Inr_iff:
  "bindE m f = Inr v \<longleftrightarrow> (\<exists>u. m = Inr u \<and> f u = Inr v)"
  by (cases m) (simp_all add: bindE_def)

lemma bindE_Inr [simp]: "bindE (Inr u) f = f u"
  by (simp add: bindE_def)

lemma bindE_Inl [simp]: "bindE (Inl e) f = Inl e"
  by (simp add: bindE_def)

lemma length_low_bits [simp]: "length (low_bits_msb_first v n) = n"
  by (induction n) simp_all

lemma put_byte_aligned:
  "aligned s \<Longrightarrow> \<exists>s'. kvz_bitstream_put_byte s b = Inr s' \<and> aligned s'"
  by (simp add: kvz_bitstream_put_byte_def kvz_bitstream_put_def aligned_def)

declare put_buffered_bytes.simps [simp del]

lemma put_buffered_bytes_range:
  "put_buffered_bytes b d = Inr d' \<Longrightarrow> range_c d' = range_c d"
proof (induction b d rule: put_buffered_bytes.induct)
  case (1 byte data)
  show ?case
  proof (cases "num_buffered_bytes data > 1")
    case True
    with "1.prems" obtain s where s: "kvz_bitstream_put_byte (stream data) byte = Inr s"
      and r: "put_buffered_bytes byte
           (data\<lparr>stream := s, num_buffered_bytes := num_buffered_bytes data - 1\<rparr>) = Inr d'"
      by (simp add: put_buffered_bytes.simps [of byte data] split: sum.splits)
    from "1.IH" [OF True s r] show ?thesis by simp
  next
    case False
    with "1.prems" show ?thesis by (simp add: put_buffered_bytes.simps [of byte data])
  qed
qed

lemma put_buffered_bytes_returns:
  "aligned (stream d) \<Longrightarrow> \<exists>d'. put_buffered_bytes b d = Inr d' \<and> aligned (stream d')"
proof (induction b d rule: put_buffered_bytes.induct)
  case (1 byte data)
  show ?case
  proof (cases "num_buffered_bytes data > 1")
    case True
    from put_byte_aligned [OF "1.prems"] obtain s
      where s: "kvz_bitstream_put_byte (stream data) byte = Inr s" and a: "aligned s"
      by blast
    from "1.IH" [OF True s] a s True show ?thesis
      by (simp add: put_buffered_bytes.simps [of byte data])
  next
    case False
    with "1.prems" show ?thesis by (simp add: put_buffered_bytes.simps [of byte data])
  qed
qed

lemma kvz_cabac_write_range:
  "kvz_cabac_write d = Inr d' \<Longrightarrow> range_c d' = range_c d"
  unfolding kvz_cabac_write_def
  by (auto simp: bindE_Inr_iff Let_def dest!: put_buffered_bytes_range split: if_splits)

lemma kvz_cabac_write_returns:
  assumes "- 8 < bits_left d" "bits_left d < 24" "aligned (stream d)"
  shows "\<exists>d'. kvz_cabac_write d = Inr d' \<and> aligned (stream d')"
proof -
  define lead where "lead = drop_bit (nat (24 - bits_left d)) (low d)"
  define msk :: "32 word" where "msk = drop_bit (nat (bits_left d + 8)) 0xffffffff"
  define d1 where "d1 = d\<lparr>bits_left := bits_left d + 8, low := low d AND msk\<rparr>"
  define d2 where "d2 = d1\<lparr>buffered_byte := lead AND 0xff\<rparr>"
  have 1: "shr32 (low d) (24 - bits_left d) = Inr lead"
    using assms by (simp add: shr32_def lead_def)
  have 2: "shr32 0xffffffff (bits_left d + 8) = Inr msk"
    using assms by (simp add: shr32_def msk_def)
  have a2: "aligned (stream d2)"
    using assms(3) by (simp add: d2_def d1_def)
  from put_byte_aligned [OF a2] obtain s
    where s: "kvz_bitstream_put_byte (stream d2) (buffered_byte d1 + drop_bit 8 lead) = Inr s"
      and as: "aligned s"
    by blast
  from put_buffered_bytes_returns [of "d2\<lparr>stream := s\<rparr>" "(0xff + drop_bit 8 lead) AND 0xff"] as
  obtain d3 where d3: "put_buffered_bytes ((0xff + drop_bit 8 lead) AND 0xff) (d2\<lparr>stream := s\<rparr>) = Inr d3"
    and a3: "aligned (stream d3)"
    by auto
  show ?thesis
    unfolding kvz_cabac_write_def 1
    using assms(3) s d3 a3
    by (simp add: 2 Let_def d2_def d1_def)
qed


lemma mps_range:
  fixes r lps :: "32 word"
  assumes "256 \<le> r" "r \<le> 510" "4 \<le> lps" "lps \<le> 255" "lps + 128 \<le> r"
  shows "r - lps < 256 \<Longrightarrow> 256 \<le> push_bit 1 (r - lps) \<and> push_bit 1 (r - lps) \<le> 510"
    and "\<not> r - lps < 256 \<Longrightarrow> 256 \<le> r - lps \<and> r - lps \<le> 510"
proof -
  have u: "256 \<le> unat r" "unat r \<le> 510" "4 \<le> unat lps" "unat lps \<le> 255"
    using assms(1-4) by (simp_all add: word_le_nat_alt)
  have "unat (lps + 128) = unat lps + 128"
    using u by (simp add: unat_word_ariths)
  with assms(5) have g: "unat lps + 128 \<le> unat r"
    by (simp add: word_le_nat_alt)
  have "lps \<le> r" using g by (simp add: word_le_nat_alt)
  then have s: "unat (r - lps) = unat r - unat lps"
    by (rule unat_sub)
  have p: "unat (push_bit 1 (r - lps)) = (unat r - unat lps) * 2 mod 2 ^ 32"
    by (simp only: unat_push_bit_mod s) simp
  show "r - lps < 256 \<Longrightarrow> 256 \<le> push_bit 1 (r - lps) \<and> push_bit 1 (r - lps) \<le> 510"
    unfolding word_le_nat_alt word_less_nat_alt p s using u g by simp
  show "\<not> r - lps < 256 \<Longrightarrow> 256 \<le> r - lps \<and> r - lps \<le> 510"
    using u g by (simp add: word_le_nat_alt word_less_nat_alt s)
qed


lemma flush_range:
  "(if bits_left x < 12 then kvz_cabac_write x else Inr x) = Inr y \<Longrightarrow> range_c y = range_c x"
  by (auto split: if_splits dest: kvz_cabac_write_range)

lemma flush_returns:
  "- 8 < bits_left x \<Longrightarrow> aligned (stream x) \<Longrightarrow>
   \<exists>y. (if bits_left x < 12 then kvz_cabac_write x else Inr x) = Inr y \<and> aligned (stream y)"
  using kvz_cabac_write_returns [of x] by auto

lemma kvz_cabac_encode_bin_range:
  assumes "256 \<le> range_c d" and "range_c d \<le> 510"
    and "4 \<le> CTX_LPS M (cur_ctx d) (range_c d)"
    and "CTX_LPS M (cur_ctx d) (range_c d) \<le> 255"
    and "CTX_LPS M (cur_ctx d) (range_c d) + 128 \<le> range_c d"
    and e: "kvz_cabac_encode_bin M d b = Inr d'"
  shows "256 \<le> range_c d' \<and> range_c d' \<le> 510"
proof -
  note lr = lps_renorm_range [OF assms(3,4)]
  note mr = mps_range [OF assms(1-5)]
  show ?thesis
    using e lr(2,3) mr unfolding kvz_cabac_encode_bin_def
    by (auto simp: bindE_Inr_iff Let_def lr(1) dest!: kvz_cabac_write_range split: if_splits)
qed


lemma kvz_cabac_encode_bin_returns:
  assumes "4 \<le> CTX_LPS M (cur_ctx d) (range_c d)"
    and "CTX_LPS M (cur_ctx d) (range_c d) \<le> 255"
    and "12 \<le> bits_left d" and "aligned (stream d)"
  shows "\<exists>d'. kvz_cabac_encode_bin M d b = Inr d'"
proof -
  let ?lps = "CTX_LPS M (cur_ctx d) (range_c d)"
  let ?k = "kvz_g_auc_renorm_table ! (unat ?lps div 8)"
  note lr = lps_renorm_range [OF assms(1,2)]
  have k: "?k \<le> 6"
    using assms(1,2) by (simp add: renorm_table_nth word_le_nat_alt)
  let ?x = "d\<lparr>range_c := range_c d - ?lps, low := push_bit ?k (low d + (range_c d - ?lps)),
                range_c := push_bit ?k ?lps, bits_left := bits_left d - int ?k\<rparr>"
  let ?y = "d\<lparr>range_c := range_c d - ?lps, low := push_bit 1 (low d),
                range_c := push_bit 1 (range_c d - ?lps), bits_left := bits_left d - 1\<rparr>"
  from flush_returns [of ?x] k assms(3,4)
  obtain x' where x': "(if bits_left ?x < 12 then kvz_cabac_write ?x else Inr ?x) = Inr x'"
    by auto
  from flush_returns [of ?y] assms(3,4)
  obtain y' where y': "(if bits_left ?y < 12 then kvz_cabac_write ?y else Inr ?y) = Inr y'"
    by auto
  show ?thesis
    using x' y' unfolding kvz_cabac_encode_bin_def
    by (auto simp: Let_def lr(1) split: if_splits)
qed

lemma kvz_cabac_encode_bin_trm_range:
  "kvz_cabac_encode_bin_trm c 1 = Inr c' \<Longrightarrow> range_c c' = 256"
  unfolding kvz_cabac_encode_bin_trm_def
  by (auto simp: Let_def dest!: kvz_cabac_write_range split: if_splits)

lemma kvz_cabac_encode_bin_trm_returns:
  assumes "12 \<le> bits_left c" and "aligned (stream c)"
  shows "\<exists>c'. kvz_cabac_encode_bin_trm c 1 = Inr c'"
proof -
  let ?x = "c\<lparr>range_c := range_c c - 2, low := push_bit 7 (low c + (range_c c - 2)),
                range_c := push_bit 7 2, bits_left := bits_left c - 7\<rparr>"
  from flush_returns [of ?x] assms
  obtain x' where "(if bits_left ?x < 12 then kvz_cabac_write ?x else Inr ?x) = Inr x'"
    by auto
  then show ?thesis
    unfolding kvz_cabac_encode_bin_trm_def by (auto simp: Let_def)
qed

text \<open>
  Claim C1, as amended. Let the width \<open>CTX_LPS(cur_ctx, range)\<close> handed out by the (absent)
  context macro lie in \<open>[4, 255]\<close> and leave at least 128 to the more probable symbol.
  If \<^verbatim>\<open>range\<close> is in \<open>[256, 510]\<close> before \<^verbatim>\<open>kvz_cabac_encode_bin\<close>, it is in
  \<open>[256, 510]\<close> after the call, and the call returns when at least 12 bits are left and the
  stream is byte aligned. Immediately after \<^verbatim>\<open>kvz_cabac_encode_bin_trm\<close> with bin value 1,
  \<^verbatim>\<open>range\<close> equals 256 (the code assigns \<^verbatim>\<open>2 << 7\<close>), not 512.
\<close>

theorem cabac_range:
  assumes "256 \<le> range_c d" and "range_c d \<le> 510"
    and "4 \<le> CTX_LPS M (cur_ctx d) (range_c d)"
    and "CTX_LPS M (cur_ctx d) (range_c d) \<le> 255"
    and "CTX_LPS M (cur_ctx d) (range_c d) + 128 \<le> range_c d"
  shows "(\<forall>d'. kvz_cabac_encode_bin M d b = Inr d' \<longrightarrow> 256 \<le> range_c d' \<and> range_c d' \<le> 510)
       \<and> (12 \<le> bits_left d \<and> aligned (stream d) \<longrightarrow> (\<exists>d'. kvz_cabac_encode_bin M d b = Inr d'))
       \<and> (\<forall>d'. kvz_cabac_encode_bin_trm d 1 = Inr d' \<longrightarrow> range_c d' = 256)
       \<and> (12 \<le> bits_left d \<and> aligned (stream d) \<longrightarrow> (\<exists>d'. kvz_cabac_encode_bin_trm d 1 = Inr d'))"
  using kvz_cabac_encode_bin_range [OF assms] kvz_cabac_encode_bin_returns [OF assms(3,4)]
    kvz_cabac_encode_bin_trm_range kvz_cabac_encode_bin_trm_returns
  by blast

lemma cabac_fresh_eq:
  "cabac_fresh = \<lparr>cur_ctx = (), low = 0, range_c = 510, buffered_byte = 0xff,
     num_buffered_bytes = 0, bits_left = 23, only_count = 0, stream = []\<rparr>"
  by (simp add: cabac_fresh_def kvz_cabac_start_def)

theorem cabac_range_witness:
  "256 \<le> range_c cabac_fresh \<and> range_c cabac_fresh \<le> 510
   \<and> 4 \<le> CTX_LPS example_macros (cur_ctx cabac_fresh) (range_c cabac_fresh)
   \<and> CTX_LPS example_macros (cur_ctx cabac_fresh) (range_c cabac_fresh) \<le> 255
   \<and> CTX_LPS example_macros (cur_ctx cabac_fresh) (range_c cabac_fresh) + 128 \<le> range_c cabac_fresh
   \<and> 12 \<le> bits_left cabac_fresh \<and> aligned (stream cabac_fresh)
   \<and> (\<exists>d'. kvz_cabac_encode_bin example_macros cabac_fresh 0 = Inr d'
          \<and> 256 \<le> range_c d' \<and> range_c d' \<le> 510)
   \<and> (\<exists>d'. kvz_cabac_encode_bin_trm cabac_fresh 1 = Inr d' \<and> range_c d' = 256)"
proof -
  have h: "256 \<le> range_c cabac_fresh" "range_c cabac_fresh \<le> 510"
    "4 \<le> CTX_LPS example_macros (cur_ctx cabac_fresh) (range_c cabac_fresh)"
    "CTX_LPS example_macros (cur_ctx cabac_fresh) (range_c cabac_fresh) \<le> 255"
    "CTX_LPS example_macros (cur_ctx cabac_fresh) (range_c cabac_fresh) + 128 \<le> range_c cabac_fresh"
    by (simp_all add: cabac_fresh_eq example_macros_def)
  have g: "12 \<le> bits_left cabac_fresh" "aligned (stream cabac_fresh)"
    by (simp_all add: cabac_fresh_eq aligned_def)
  from cabac_range [OF h, of 0] g h show ?thesis
    by blast
qed

text \<open>
  The claim as first stated has \<^verbatim>\<open>range == 512\<close> after a terminating bin of value 1.
  From the fresh coder the terminating bin leaves \<^verbatim>\<open>range\<close> at 256.
\<close>

theorem cabac_range_counterexample:
  "kvz_cabac_encode_bin_trm cabac_fresh 1 =
     Inr \<lparr>cur_ctx = (), low = 65024, range_c = 256, buffered_byte = 0xff,
          num_buffered_bytes = 0, bits_left = 16, only_count = 0, stream = []\<rparr>
   \<and> (256 :: 32 word) \<noteq> 512"
  by (simp add: cabac_fresh_eq kvz_cabac_encode_bin_trm_def Let_def)


lemma low_bits_msb_first_numeral [simp]:
  "low_bits_msb_first v (numeral k) =
     bit v (pred_numeral k) # low_bits_msb_first v (pred_numeral k)"
  by (simp add: numeral_eq_Suc)

lemma low_bits_msb_first_1 [simp]: "low_bits_msb_first v 1 = [bit v 0]"
  unfolding One_nat_def by simp

lemma trm_start:
  "kvz_cabac_encode_bin_trm (kvz_cabac_start d) 1 =
     Inr (d\<lparr>low := 65024, range_c := 256, bits_left := 16, num_buffered_bytes := 0,
          buffered_byte := 0xff, only_count := 0\<rparr>)"
  by (simp add: kvz_cabac_start_def kvz_cabac_encode_bin_trm_def Let_def)

lemma finish_after_trm:
  "kvz_cabac_finish (d\<lparr>low := 65024, range_c := 256, bits_left := 16, num_buffered_bytes := 0,
          buffered_byte := 0xff, only_count := 0\<rparr>) =
   Inr (d\<lparr>low := 65024, range_c := 256, bits_left := 16, num_buffered_bytes := 0,
          buffered_byte := 0xff, only_count := 0,
          stream := stream d @ [True, True, True, True, True, True, True, False]\<rparr>)"
  by (simp add: kvz_cabac_finish_def shr32_def Let_def kvz_bitstream_put_def
      put_buffered_bytes.simps [of "0xff"])


lemma end_of_sub_stream_start:
  "end_of_sub_stream (kvz_cabac_start (d\<lparr>stream := []\<rparr>)) =
     Inr (kvz_cabac_start (d\<lparr>stream :=
        [True, True, True, True, True, True, True, False,
         True, False, False, False, False, False, False, False]\<rparr>))"
  unfolding end_of_sub_stream_def trm_start bindE_Inr finish_after_trm
  by (simp add: Let_def kvz_bitstream_put_def kvz_bitstream_align_zero_def kvz_cabac_start_def)

lemma stream_bytes_FE80:
  "stream_bytes [True, True, True, True, True, True, True, False,
                 True, False, False, False, False, False, False, False] = [0xFE, 0x80]"
  by (simp add: byte_of_bits_def)

text \<open>
  Claim C4, as amended. From a coder freshly initialised by \<^verbatim>\<open>kvz_cabac_start\<close> over an
  empty bitstream, one terminating bin of value 1, then \<^verbatim>\<open>kvz_cabac_finish\<close>, the stop bit
  and the zero alignment emit exactly the two bytes \<open>0xFE 0x80\<close>: the terminating bin
  leaves \<open>low = 508 << 7 = 0xFE00\<close> with 16 bits left, \<^verbatim>\<open>finish\<close> writes the eight bits
  \<open>low >> 8 = 0xFE\<close>, and the stop bit with seven zero bits makes \<open>0x80\<close>.
\<close>

theorem end_of_sub_stream_bytes:
  "\<exists>c. end_of_sub_stream (kvz_cabac_start (d\<lparr>stream := []\<rparr>)) = Inr c
       \<and> stream_bytes (stream c) = [0xFE, 0x80]"
  unfolding end_of_sub_stream_start
  by (simp add: kvz_cabac_start_def stream_bytes_FE80 del: stream_bytes.simps)

text \<open>
  The claim as first stated expects the bytes \<open>0x80 0x00\<close>; on the fresh coder the code
  emits \<open>0xFE 0x80\<close>.
\<close>

theorem end_of_sub_stream_counterexample:
  "end_of_sub_stream cabac_fresh =
     Inr (cabac_fresh\<lparr>stream := [True, True, True, True, True, True, True, False,
                                 True, False, False, False, False, False, False, False]\<rparr>)
   \<and> stream_bytes [True, True, True, True, True, True, True, False,
                    True, False, False, False, False, False, False, False] = [0xFE, 0x80]
   \<and> [0xFE, 0x80] \<noteq> [0x80, 0x00 :: 8 word]"
proof -
  have "cabac_fresh = kvz_cabac_start (cabac_fresh\<lparr>stream := []\<rparr>)"
    by (simp add: cabac_fresh_eq kvz_cabac_start_def)
  then have "end_of_sub_stream cabac_fresh =
     Inr (kvz_cabac_start (cabac_fresh\<lparr>stream :=
        [True, True, True, True, True, True, True, False,
         True, False, False, False, False, False, False, False]\<rparr>))"
    using end_of_sub_stream_start [of cabac_fresh] by simp
  then show ?thesis
    by (simp add: stream_bytes_FE80 cabac_fresh_eq kvz_cabac_start_def del: stream_bytes.simps)
qed

section \<open>Truncated binary code: results\<close>

declare aligned_bins_ep_loop.simps [simp del] bins_ep_loop.simps [simp del]
  trunc_bin_thresh_loop.simps [simp del]

lemma kvz_tb_max_small: "kvz_tb_max ! Suc 0 = 0" "kvz_tb_max ! 3 = 1"
  by (simp_all add: kvz_tb_max_def nth_append)

lemma trunc_bin_calls:
  "kvz_cabac_encode_trunc_bin E d 0 1 = E d 0 0"
  "kvz_cabac_encode_trunc_bin E d 0 3 = E d 0 1"
  "kvz_cabac_encode_trunc_bin E d 1 3 = E d 2 2"
  "kvz_cabac_encode_trunc_bin E d 2 3 = E d 3 2"
  "kvz_cabac_encode_trunc_bin E d 3 3 = E d 4 2"
  by (simp_all add: kvz_cabac_encode_trunc_bin_def kvz_tb_max_small shl_int_one_def i32_def Let_def)

lemma ep_bin_strings:
  "ep_bin_string 0 0 = Some []"
  "ep_bin_string 0 1 = Some [False]"
  "ep_bin_string 2 2 = Some [True, False]"
  "ep_bin_string 3 2 = Some [True, True]"
  "ep_bin_string 4 2 = None"
  by (simp_all add: ep_bin_string_def)

lemma bins_ep_0:
  assumes "12 \<le> bits_left c"
  shows "kvz_cabac_encode_bins_ep c 0 0 = Inr c"
  using assms
  by (simp add: kvz_cabac_encode_bins_ep_def kvz_cabac_encode_aligned_bins_ep_def
      aligned_bins_ep_loop.simps [of 0] bins_ep_loop.simps [of 0] shl32_def)

lemma bins_ep_1:
  assumes "13 \<le> bits_left c" "v = 0 \<or> v = 1"
  shows "kvz_cabac_encode_bins_ep c v 1 = kvz_cabac_encode_bin_ep c v"
  using assms
  by (auto simp add: kvz_cabac_encode_bins_ep_def kvz_cabac_encode_aligned_bins_ep_def
      aligned_bins_ep_loop.simps [of 1] aligned_bins_ep_loop.simps [of 0] bins_ep_loop.simps [of 1]
      shl32_def shr32_def kvz_cabac_encode_bin_ep_def Let_def)


lemma bins_ep_2:
  assumes "14 \<le> bits_left c"
  shows "kvz_cabac_encode_bins_ep c 2 2 = encode_bins_one_by_one c [True, False]"
    and "kvz_cabac_encode_bins_ep c 3 2 = encode_bins_one_by_one c [True, True]"
  using assms
  by (auto simp add: kvz_cabac_encode_bins_ep_def kvz_cabac_encode_aligned_bins_ep_def
      aligned_bins_ep_loop.simps [of 2] aligned_bins_ep_loop.simps [of 0] bins_ep_loop.simps [of 2]
      shl32_def shr32_def kvz_cabac_encode_bin_ep_def Let_def push_bit_eq_mult)

lemma trunc_bin_coder:
  assumes "14 \<le> bits_left c"
  shows "kvz_cabac_encode_trunc_bin kvz_cabac_encode_bins_ep c 0 1 = encode_bins_one_by_one c []"
    and "kvz_cabac_encode_trunc_bin kvz_cabac_encode_bins_ep c 0 3 = encode_bins_one_by_one c [False]"
    and "kvz_cabac_encode_trunc_bin kvz_cabac_encode_bins_ep c 1 3
          = encode_bins_one_by_one c [True, False]"
    and "kvz_cabac_encode_trunc_bin kvz_cabac_encode_bins_ep c 2 3
          = encode_bins_one_by_one c [True, True]"
proof -
  show "kvz_cabac_encode_trunc_bin kvz_cabac_encode_bins_ep c 0 1 = encode_bins_one_by_one c []"
    using bins_ep_0 [of c] assms by (simp add: trunc_bin_calls)
  show "kvz_cabac_encode_trunc_bin kvz_cabac_encode_bins_ep c 0 3 = encode_bins_one_by_one c [False]"
    using bins_ep_1 [of c 0] assms
    by (simp add: trunc_bin_calls) (simp add: kvz_cabac_encode_bin_ep_def Let_def)
  show "kvz_cabac_encode_trunc_bin kvz_cabac_encode_bins_ep c 1 3
          = encode_bins_one_by_one c [True, False]"
    unfolding trunc_bin_calls by (rule bins_ep_2 [OF assms])
  show "kvz_cabac_encode_trunc_bin kvz_cabac_encode_bins_ep c 2 3
          = encode_bins_one_by_one c [True, True]"
    unfolding trunc_bin_calls by (rule bins_ep_2 [OF assms])
qed

text \<open>
  Claim C5, as amended. \<^verbatim>\<open>kvz_cabac_encode_trunc_bin\<close> hands the following to the bypass
  coder: for \<open>(s=0, max=1)\<close> the value 0 over 0 bins, that is no bin; for \<open>(s=0, max=3)\<close>
  the single bin 0; for \<open>(s=1, max=3)\<close> the two bins 10; for \<open>(s=2, max=3)\<close> the two
  bins 11; for \<open>(s=3, max=3)\<close>, a symbol outside the \<open>max\<close> symbols \<open>0 .. max - 1\<close>, the
  value 4 over 2 bins, which is no two-bin string. With the bypass coder of cabac.c in the
  place of the macro and at least 14 bits left, the coder ends in the state that coding
  those bins one at a time reaches.
\<close>

theorem trunc_bin_bins:
  "kvz_cabac_encode_trunc_bin BINS_EP d 0 1 = BINS_EP d 0 0 \<and> ep_bin_string 0 0 = Some []
   \<and> kvz_cabac_encode_trunc_bin BINS_EP d 0 3 = BINS_EP d 0 1 \<and> ep_bin_string 0 1 = Some [False]
   \<and> kvz_cabac_encode_trunc_bin BINS_EP d 1 3 = BINS_EP d 2 2
   \<and> ep_bin_string 2 2 = Some [True, False]
   \<and> kvz_cabac_encode_trunc_bin BINS_EP d 2 3 = BINS_EP d 3 2
   \<and> ep_bin_string 3 2 = Some [True, True]
   \<and> kvz_cabac_encode_trunc_bin BINS_EP d 3 3 = BINS_EP d 4 2 \<and> ep_bin_string 4 2 = None
   \<and> (14 \<le> bits_left c \<longrightarrow>
        kvz_cabac_encode_trunc_bin kvz_cabac_encode_bins_ep c 0 1 = encode_bins_one_by_one c []
      \<and> kvz_cabac_encode_trunc_bin kvz_cabac_encode_bins_ep c 0 3 = encode_bins_one_by_one c [False]
      \<and> kvz_cabac_encode_trunc_bin kvz_cabac_encode_bins_ep c 1 3
          = encode_bins_one_by_one c [True, False]
      \<and> kvz_cabac_encode_trunc_bin kvz_cabac_encode_bins_ep c 2 3
          = encode_bins_one_by_one c [True, True])"
  by (intro conjI impI trunc_bin_calls ep_bin_strings trunc_bin_coder)

lemma one_by_one_fresh:
  "encode_bins_one_by_one cabac_fresh [] = Inr cabac_fresh"
  "encode_bins_one_by_one cabac_fresh [True, False] = Inr (cabac_fresh\<lparr>low := 1020, bits_left := 21\<rparr>)"
  "encode_bins_one_by_one cabac_fresh [True, True] = Inr (cabac_fresh\<lparr>low := 1530, bits_left := 21\<rparr>)"
  by (simp_all add: cabac_fresh_eq kvz_cabac_encode_bin_ep_def Let_def)

theorem trunc_bin_bins_witness:
  "14 \<le> bits_left cabac_fresh
   \<and> kvz_cabac_encode_trunc_bin kvz_cabac_encode_bins_ep cabac_fresh 0 1 = Inr cabac_fresh
   \<and> kvz_cabac_encode_trunc_bin kvz_cabac_encode_bins_ep cabac_fresh 1 3
       = Inr (cabac_fresh\<lparr>low := 1020, bits_left := 21\<rparr>)
   \<and> kvz_cabac_encode_trunc_bin kvz_cabac_encode_bins_ep cabac_fresh 2 3
       = Inr (cabac_fresh\<lparr>low := 1530, bits_left := 21\<rparr>)"
proof -
  have h: "14 \<le> bits_left cabac_fresh"
    by (simp add: cabac_fresh_eq)
  from trunc_bin_bins [of kvz_cabac_encode_bins_ep cabac_fresh cabac_fresh] h show ?thesis
    unfolding one_by_one_fresh by blast
qed

text \<open>
  The claim as first stated has \<open>(s=2, max=3)\<close> emit the bins 10 and \<open>(s=3, max=3)\<close> the
  bins 11. On the fresh coder \<open>(s=2, max=3)\<close> reaches the state of the bins 11
  (\<open>low = 3 * 510\<close>), which is not the state of the bins 10 (\<open>low = 2 * 510\<close>), and
  \<open>(s=3, max=3)\<close> reaches \<open>low = 4 * 510\<close>.
\<close>

theorem trunc_bin_bins_counterexample:
  "kvz_cabac_encode_trunc_bin kvz_cabac_encode_bins_ep cabac_fresh 2 3
     = Inr (cabac_fresh\<lparr>low := 1530, bits_left := 21\<rparr>)
   \<and> encode_bins_one_by_one cabac_fresh [True, True]
     = Inr (cabac_fresh\<lparr>low := 1530, bits_left := 21\<rparr>)
   \<and> encode_bins_one_by_one cabac_fresh [True, False]
     = Inr (cabac_fresh\<lparr>low := 1020, bits_left := 21\<rparr>)
   \<and> cabac_fresh\<lparr>low := 1530, bits_left := 21\<rparr> \<noteq> cabac_fresh\<lparr>low := 1020, bits_left := 21\<rparr>
   \<and> kvz_cabac_encode_trunc_bin kvz_cabac_encode_bins_ep cabac_fresh 3 3
     = Inr (cabac_fresh\<lparr>low := 2040, bits_left := 21\<rparr>)"
proof -
  have h: "14 \<le> bits_left cabac_fresh"
    by (simp add: cabac_fresh_eq)
  have 1: "kvz_cabac_encode_bins_ep cabac_fresh 4 2 = Inr (cabac_fresh\<lparr>low := 2040, bits_left := 21\<rparr>)"
    by (simp add: cabac_fresh_eq kvz_cabac_encode_bins_ep_def bins_ep_loop.simps [of 2] shl32_def)
  have 2: "cabac_fresh\<lparr>low := 1530, bits_left := 21\<rparr> \<noteq> cabac_fresh\<lparr>low := 1020, bits_left := 21\<rparr>"
    by (simp add: cabac_fresh_eq)
  show ?thesis
    using trunc_bin_coder(4) [OF h] 1 2
    unfolding trunc_bin_calls one_by_one_fresh by blast
qed

section \<open>Picture order count and reference QP: results\<close>

lemma smod_nonneg: "0 \<le> a \<Longrightarrow> 0 < b \<Longrightarrow> a smod b = a mod (b :: int)"
  by (simp add: signed_modulo_int_def sgn_if)

lemma idr_every_period:
  fixes n ip :: int
  assumes "0 < n" "0 < ip"
  shows "(n - 1) smod (ip + 1) = ip \<longleftrightarrow> n mod (ip + 1) = 0"
proof -
  have s: "(n - 1) smod (ip + 1) = (n - 1) mod (ip + 1)"
    using assms by (simp add: smod_nonneg)
  have "(n - 1) mod (ip + 1) = ip \<longleftrightarrow> n mod (ip + 1) = 0"
  proof
    assume a: "(n - 1) mod (ip + 1) = ip"
    have "n mod (ip + 1) = ((n - 1) mod (ip + 1) + 1) mod (ip + 1)"
      by (simp add: mod_simps)
    also have "\<dots> = 0" using a by simp
    finally show "n mod (ip + 1) = 0" .
  next
    assume a: "n mod (ip + 1) = 0"
    have "(n - 1) mod (ip + 1) = (n mod (ip + 1) - 1) mod (ip + 1)"
      by (simp add: mod_simps)
    also have "\<dots> = (- 1) mod (ip + 1)" using a by simp
    also have "\<dots> = ip" using assms
      by (simp add: zmod_minus1)
    finally show "(n - 1) mod (ip + 1) = ip" .
  qed
  with s show ?thesis by simp
qed

text \<open>
  Claim C7, as amended. The first frame (\<open>num = 0\<close>) has POC 0 in every mode. For a later
  frame, with \<open>framenum = num - 1\<close>: in closed-GOP mode (\<open>gop_len\<close> set, not low-delay,
  \<open>intra_period > 0\<close>, \<open>open_gop\<close> off) the POC is reset to 0 and the frame is an IRAP
  when \<open>framenum % (intra_period + 1) = intra_period\<close>, that is at every frame number that
  is a multiple of \<open>intra_period + 1\<close>, and the other frames get
  \<open>f - f % gop_len + poc_offset[gop_idx]\<close> for \<open>f = framenum % (intra_period + 1)\<close>;
  in the other GOP mode (open GOP) the POC is
  \<open>framenum - framenum % gop_len + poc_offset[gop_idx]\<close>; with no GOP structure
  (\<open>gop_len = 0\<close> or low-delay) the POC is \<open>num % intra_period\<close> when
  \<open>intra_period > 1\<close> and \<open>num\<close> otherwise.
\<close>

theorem poc_assignment:
  "(num frame = 0 \<longrightarrow> poc (encoder_state_init_new_frame_poc cfg frame) = 0)
   \<and> (num frame \<noteq> 0 \<and> gop_len cfg \<noteq> 0 \<and> \<not> gop_lowdelay cfg
        \<and> intra_period cfg > 0 \<and> \<not> open_gop cfg \<longrightarrow>
        (if (num frame - 1) smod (intra_period cfg + 1) = intra_period cfg
         then poc (encoder_state_init_new_frame_poc cfg frame) = 0
              \<and> is_irap (encoder_state_init_new_frame_poc cfg frame)
         else poc (encoder_state_init_new_frame_poc cfg frame) =
                (let framenum = (num frame - 1) smod (intra_period cfg + 1)
                 in framenum - framenum smod gop_len cfg
                    + poc_offset (gop cfg (gop_offset frame))))
        \<and> (num frame > 0 \<longrightarrow>
              ((num frame - 1) smod (intra_period cfg + 1) = intra_period cfg
               \<longleftrightarrow> num frame mod (intra_period cfg + 1) = 0)))
   \<and> (num frame \<noteq> 0 \<and> gop_len cfg \<noteq> 0 \<and> \<not> gop_lowdelay cfg
        \<and> \<not> (intra_period cfg > 0 \<and> \<not> open_gop cfg) \<longrightarrow>
        poc (encoder_state_init_new_frame_poc cfg frame) =
          (let framenum = num frame - 1
           in framenum - framenum smod gop_len cfg + poc_offset (gop cfg (gop_offset frame))))
   \<and> (num frame \<noteq> 0 \<and> \<not> (gop_len cfg \<noteq> 0 \<and> \<not> gop_lowdelay cfg) \<longrightarrow>
        poc (encoder_state_init_new_frame_poc cfg frame) =
          (if intra_period cfg > 1 then num frame smod intra_period cfg else num frame))"
proof (intro conjI impI)
  show "num frame = 0 \<Longrightarrow> poc (encoder_state_init_new_frame_poc cfg frame) = 0"
    by (simp add: encoder_state_init_new_frame_poc_def Let_def)
next
  assume "num frame \<noteq> 0 \<and> gop_len cfg \<noteq> 0 \<and> \<not> gop_lowdelay cfg
        \<and> intra_period cfg > 0 \<and> \<not> open_gop cfg"
  then show "if (num frame - 1) smod (intra_period cfg + 1) = intra_period cfg
         then poc (encoder_state_init_new_frame_poc cfg frame) = 0
              \<and> is_irap (encoder_state_init_new_frame_poc cfg frame)
         else poc (encoder_state_init_new_frame_poc cfg frame) =
                (let framenum = (num frame - 1) smod (intra_period cfg + 1)
                 in framenum - framenum smod gop_len cfg
                    + poc_offset (gop cfg (gop_offset frame)))"
    by (simp add: encoder_state_init_new_frame_poc_def Let_def)
next
  assume "num frame \<noteq> 0 \<and> gop_len cfg \<noteq> 0 \<and> \<not> gop_lowdelay cfg
        \<and> intra_period cfg > 0 \<and> \<not> open_gop cfg" and "num frame > 0"
  then show "(num frame - 1) smod (intra_period cfg + 1) = intra_period cfg
               \<longleftrightarrow> num frame mod (intra_period cfg + 1) = 0"
    by (intro idr_every_period) simp_all
next
  assume "num frame \<noteq> 0 \<and> gop_len cfg \<noteq> 0 \<and> \<not> gop_lowdelay cfg
        \<and> \<not> (intra_period cfg > 0 \<and> \<not> open_gop cfg)"
  then show "poc (encoder_state_init_new_frame_poc cfg frame) =
          (let framenum = num frame - 1
           in framenum - framenum smod gop_len cfg + poc_offset (gop cfg (gop_offset frame)))"
    by (auto simp add: encoder_state_init_new_frame_poc_def Let_def)
next
  assume "num frame \<noteq> 0 \<and> \<not> (gop_len cfg \<noteq> 0 \<and> \<not> gop_lowdelay cfg)"
  then show "poc (encoder_state_init_new_frame_poc cfg frame) =
          (if intra_period cfg > 1 then num frame smod intra_period cfg else num frame)"
    by (auto simp add: encoder_state_init_new_frame_poc_def Let_def)
qed

text \<open>
  Claim C10. When the quantization group of \<open>(x, y)\<close> has its top-left corner at
  \<open>x_qg = 0\<close> and at a \<open>y_qg\<close> that is a positive multiple of \<^verbatim>\<open>LCU_WIDTH\<close>,
  \<^verbatim>\<open>uvg_get_cu_ref_qp\<close> returns the QP stored in the cell directly above the group, at
  \<open>(x_qg, y_qg - 1)\<close>, whatever \<open>last_qp\<close> is: neither the fallback nor the average is used.
\<close>

theorem get_cu_ref_qp_row_start:
  assumes "x_qg E cua x y = 0" and "y_qg E cua x y > 0"
    and "y_qg E cua x y smod LCU_WIDTH E = 0"
  shows "uvg_get_cu_ref_qp E cua x y last_qp
           = sint (qp (uvg_cu_array_at cua (x_qg E cua x y) (y_qg E cua x y - 1)))"
  using assms by (simp add: uvg_get_cu_ref_qp_def Let_def)

lemma example_qg:
  "x_qg example_env example_grid 8 70 = 0" "y_qg example_env example_grid 8 70 = 64"
  by (simp_all add: x_qg_def y_qg_def qg_width_def qg_height_def example_env_def example_grid_def
      uvg_cu_array_at_def)

theorem get_cu_ref_qp_row_start_witness:
  "x_qg example_env example_grid 8 70 = 0 \<and> y_qg example_env example_grid 8 70 > 0
   \<and> y_qg example_env example_grid 8 70 smod LCU_WIDTH example_env = 0
   \<and> uvg_get_cu_ref_qp example_env example_grid 8 70 20 = 30
   \<and> drop_bit 1 ((20::int) + 20 + 1) = 20"
proof -
  have h: "x_qg example_env example_grid 8 70 = 0" "y_qg example_env example_grid 8 70 > 0"
    "y_qg example_env example_grid 8 70 smod LCU_WIDTH example_env = 0"
    by (simp_all add: example_qg) (simp add: example_env_def signed_modulo_int_def)
  have "sint (qp (uvg_cu_array_at example_grid (x_qg example_env example_grid 8 70)
      (y_qg example_env example_grid 8 70 - 1))) = 30"
    unfolding example_qg by (simp add: uvg_cu_array_at_def example_grid_def)
  with get_cu_ref_qp_row_start [OF h, of 20] h show ?thesis
    by (simp add: drop_bit_eq_div)
qed


lemma example_poc:
  "poc (encoder_state_init_new_frame_poc example_no_gop (example_frame 5 0)) = 5"
  by (simp add: encoder_state_init_new_frame_poc_def example_no_gop_def example_frame_def
      signed_modulo_int_def Let_def)

theorem poc_assignment_witness:
  "num (example_frame 0 0) = 0
   \<and> poc (encoder_state_init_new_frame_poc example_gop8 (example_frame 0 0)) = 0
   \<and> num (example_frame 17 0) > 0 \<and> gop_len example_gop8 \<noteq> 0 \<and> \<not> gop_lowdelay example_gop8
   \<and> intra_period example_gop8 > 0 \<and> \<not> open_gop example_gop8
   \<and> (17 - 1) smod (intra_period example_gop8 + 1) = intra_period example_gop8
   \<and> poc (encoder_state_init_new_frame_poc example_gop8 (example_frame 17 0)) = 0
   \<and> is_irap (encoder_state_init_new_frame_poc example_gop8 (example_frame 17 0))
   \<and> (20 - 1) smod (intra_period example_gop8 + 1) \<noteq> intra_period example_gop8
   \<and> poc (encoder_state_init_new_frame_poc example_gop8 (example_frame 20 1)) = 4
   \<and> open_gop (example_gop8\<lparr>open_gop := True\<rparr>)
   \<and> poc (encoder_state_init_new_frame_poc (example_gop8\<lparr>open_gop := True\<rparr>) (example_frame 20 1))
       = 20
   \<and> gop_len example_no_gop = 0 \<and> \<not> intra_period example_no_gop > 1
   \<and> poc (encoder_state_init_new_frame_poc example_no_gop (example_frame 5 0)) = 5
   \<and> intra_period (example_no_gop\<lparr>intra_period := 4\<rparr>) > 1
   \<and> poc (encoder_state_init_new_frame_poc (example_no_gop\<lparr>intra_period := 4\<rparr>) (example_frame 5 0))
       = 1"
  using poc_assignment [of "example_frame 0 0" example_gop8]
    poc_assignment [of "example_frame 17 0" example_gop8]
    poc_assignment [of "example_frame 20 1" example_gop8]
    poc_assignment [of "example_frame 20 1" "example_gop8\<lparr>open_gop := True\<rparr>"]
    poc_assignment [of "example_frame 5 0" example_no_gop]
    poc_assignment [of "example_frame 5 0" "example_no_gop\<lparr>intra_period := 4\<rparr>"]
  by (simp add: example_gop8_def example_no_gop_def example_frame_def signed_modulo_int_def)

text \<open>
  The claim as first stated gives \<open>framenum % intra_period\<close> for every stream without GOP
  structure. With \<open>intra_period = 1\<close> the fifth frame has POC 5, and both \<open>5 % 1\<close> and
  \<open>(5 - 1) % 1\<close> are 0.
\<close>

theorem poc_assignment_counterexample:
  "gop_len example_no_gop = 0 \<and> intra_period example_no_gop = 1
   \<and> poc (encoder_state_init_new_frame_poc example_no_gop (example_frame 5 0)) = 5
   \<and> (5::int) smod intra_period example_no_gop = 0
   \<and> ((5::int) - 1) smod intra_period example_no_gop = 0"
  by (simp add: example_poc) (simp add: example_no_gop_def signed_modulo_int_def)

section \<open>Per-CU QP propagation: results\<close>

declare for_steps.simps [simp del]

lemma for_steps_mem:
  "v \<in> set (for_steps a l s) \<longleftrightarrow> 0 < s \<and> (\<exists>k. 0 \<le> k \<and> v = a + k * s \<and> v < l)"
proof (induction a l s rule: for_steps.induct)
  case (1 a l s)
  show ?case
  proof (cases "a < l \<and> 0 < s")
    case True
    then have e: "for_steps a l s = a # for_steps (a + s) l s"
      by (simp add: for_steps.simps [of a l s])
    have "(\<exists>k. 0 \<le> k \<and> v = a + k * s \<and> v < l)
        \<longleftrightarrow> v = a \<or> (\<exists>k. 0 \<le> k \<and> v = a + s + k * s \<and> v < l)" (is "?L \<longleftrightarrow> ?R")
    proof
      assume ?L
      then obtain k where k: "0 \<le> k" "v = a + k * s" "v < l" by blast
      show ?R
      proof (cases "k = 0")
        case True with k show ?thesis by simp
      next
        case False
        with k have "0 \<le> k - 1" "v = a + s + (k - 1) * s"
          by (simp_all add: algebra_simps)
        with k(3) show ?thesis by blast
      qed
    next
      assume ?R
      then show ?L
      proof
        assume "v = a"
        with True have "0 \<le> (0::int) \<and> v = a + 0 * s \<and> v < l" by simp
        then show ?L by blast
      next
        assume "\<exists>k. 0 \<le> k \<and> v = a + s + k * s \<and> v < l"
        then obtain k where k: "0 \<le> k" "v = a + s + k * s" "v < l" by blast
        then have "0 \<le> k + 1 \<and> v = a + (k + 1) * s \<and> v < l"
          by (simp add: algebra_simps)
        then show ?L by blast
      qed
    qed
    with True "1.IH" [OF True] e show ?thesis by simp
  next
    case False
    then have e: "for_steps a l s = []"
      by (simp add: for_steps.simps [of a l s])
    have "\<not> (0 < s \<and> (\<exists>k. 0 \<le> k \<and> v = a + k * s \<and> v < l))"
    proof
      assume h: "0 < s \<and> (\<exists>k. 0 \<le> k \<and> v = a + k * s \<and> v < l)"
      then obtain k where k: "0 \<le> k" "v = a + k * s" "v < l" by blast
      from h k(1) have "0 \<le> k * s" by simp
      with k False h show False by simp
    qed
    with e show ?thesis by simp
  qed
qed

lemma fold_set_qp_row:
  "fold (\<lambda>x_scu cua. cu_array_set_qp cua x_scu y q) xs cua =
     (\<lambda>c. if c \<in> (\<lambda>x. (x div 4, y div 4)) ` set xs then (cua c)\<lparr>qp := q\<rparr> else cua c)"
proof (induction xs arbitrary: cua)
  case Nil
  show ?case by simp
next
  case (Cons a xs)
  show ?case
    by (simp add: Cons.IH) (auto simp: cu_array_set_qp_def fun_eq_iff)
qed

lemma fold_set_qp_general:
  "fold (\<lambda>y cua c. if c \<in> R y then (cua c)\<lparr>qp := q\<rparr> else cua c) ys cua =
     (\<lambda>c. if c \<in> (\<Union>y\<in>set ys. R y) then (cua c)\<lparr>qp := q\<rparr> else cua c)"
proof (induction ys arbitrary: cua)
  case Nil
  show ?case by simp
next
  case (Cons a ys)
  show ?case
    unfolding fold_Cons comp_def Cons.IH by (auto simp: fun_eq_iff)
qed

lemma fold_set_qp_rows:
  "fold (\<lambda>y_scu cua. fold (\<lambda>x_scu cua. cu_array_set_qp cua x_scu y_scu q) xs cua) ys cua =
     (\<lambda>c. if c \<in> (\<lambda>(x, y). (x div 4, y div 4)) ` (set xs \<times> set ys)
           then (cua c)\<lparr>qp := q\<rparr> else cua c)"
proof -
  have "(\<Union>y\<in>set ys. (\<lambda>x. (x div 4, y div 4)) ` set xs)
      = (\<lambda>(x, y). (x div 4, y div 4)) ` (set xs \<times> set ys)"
    by auto
  then show ?thesis
    unfolding fold_set_qp_row
    by (simp only: fold_set_qp_general [where R = "\<lambda>y. (\<lambda>x. (x div 4, y div 4)) ` set xs"])
qed


lemma sint8_range: "- 128 \<le> sint (w :: 8 word) \<and> sint w \<le> 127"
  using sint_ge [of w] sint_lt [of w] by simp

lemma sint8_of_int: "- 128 \<le> v \<Longrightarrow> v \<le> 127 \<Longrightarrow> sint (word_of_int v :: 8 word) = v"
  by (simp add: sint_sbintrunc' signed_take_bit_int_eq_self)

lemma uvg_get_cu_ref_qp_range:
  assumes "- 128 \<le> last_qp" "last_qp \<le> 127"
  shows "- 128 \<le> uvg_get_cu_ref_qp E cua x y last_qp \<and> uvg_get_cu_ref_qp E cua x y last_qp \<le> 127"
proof -
  have avg: "- 128 \<le> drop_bit 1 (a + b + 1) \<and> drop_bit 1 (a + b + 1) \<le> 127"
    if "- 128 \<le> a" "a \<le> 127" "- 128 \<le> b" "b \<le> 127" for a b :: int
    using that unfolding drop_bit_eq_div by simp linarith
  show ?thesis
    unfolding uvg_get_cu_ref_qp_def Let_def
    using assms sint8_range avg by (simp split: if_splits)
qed

lemma set_cu_qps_leaf_result:
  "set_cu_qps_leaf E cua cu_loc last_qp p =
    (let q = (if cbf_found E cua cu_loc p
              then qp (uvg_cu_array_at cua (loc_x cu_loc) (loc_y cu_loc))
              else word_of_int (uvg_get_cu_ref_qp E cua (loc_x cu_loc) (loc_y cu_loc) last_qp));
         cua' = (\<lambda>c. if c \<in> (\<lambda>(x, y). (x div 4, y div 4)) `
                       (set (for_steps (loc_x cu_loc) (loc_x cu_loc + loc_width cu_loc) 4)
                        \<times> set (for_steps (loc_y cu_loc) (loc_y cu_loc + loc_height cu_loc) 4))
                    then (cua c)\<lparr>qp := q\<rparr> else cua c)
     in (cua',
         if is_last_cu_in_qg E cu_loc
         then sint (qp (uvg_cu_array_at cua' (loc_x cu_loc) (loc_y cu_loc))) else last_qp,
         if cbf_found E cua cu_loc p
         then sint (qp (uvg_cu_array_at cua (loc_x cu_loc) (loc_y cu_loc))) else p))"
  unfolding set_cu_qps_leaf_def Let_def SCU_WIDTH_def
  by (simp add: fold_set_qp_rows split: if_splits)

lemma covered_cell:
  assumes "0 \<le> i" "4 * i < w" "0 \<le> j" "4 * j < h"
  shows "((x + 4 * i) div 4, (y + 4 * j) div 4) \<in> (\<lambda>(x, y). (x div 4, y div 4)) `
           (set (for_steps x (x + w) 4) \<times> set (for_steps y (y + h) 4))"
proof -
  have "x + 4 * i \<in> set (for_steps x (x + w) 4)"
    unfolding for_steps_mem using assms(1,2) by (intro conjI exI [of _ i]) simp_all
  moreover have "y + 4 * j \<in> set (for_steps y (y + h) 4)"
    unfolding for_steps_mem using assms(3,4) by (intro conjI exI [of _ j]) simp_all
  ultimately show ?thesis by (intro image_eqI [where x = "(x + 4 * i, y + 4 * j)"]) simp_all
qed

lemma set_cu_qps_at_leaf:
  assumes "loc_x cu_loc < frame_width E" "loc_y cu_loc < frame_height E"
    and "loc_width cu_loc
           \<le> push_bit (log2_width (uvg_cu_array_at cua (loc_x cu_loc) (loc_y cu_loc))) 1"
  shows "set_cu_qps (Suc fuel) E cua cu_loc last_qp prev_qp depth =
           Some (set_cu_qps_leaf E cua cu_loc last_qp
                   (if depth \<le> max_qp_delta_depth E then - 1 else prev_qp))"
  using assms by (simp add: Let_def)

lemma set_cu_qps_leaf_cell:
  assumes "loc_x cu_loc < frame_width E" "loc_y cu_loc < frame_height E"
    and "loc_width cu_loc
           \<le> push_bit (log2_width (uvg_cu_array_at cua (loc_x cu_loc) (loc_y cu_loc))) 1"
    and "0 \<le> i" "4 * i < loc_width cu_loc" "0 \<le> j" "4 * j < loc_height cu_loc"
  shows "qp_after (set_cu_qps (Suc fuel) E cua cu_loc last_qp prev_qp depth)
           (loc_x cu_loc + 4 * i) (loc_y cu_loc + 4 * j) =
         Some (sint (if cbf_found E cua cu_loc (if depth \<le> max_qp_delta_depth E then - 1 else prev_qp)
               then qp (uvg_cu_array_at cua (loc_x cu_loc) (loc_y cu_loc))
               else word_of_int
                      (uvg_get_cu_ref_qp E cua (loc_x cu_loc) (loc_y cu_loc) last_qp)))"
  unfolding set_cu_qps_at_leaf [OF assms(1-3)] set_cu_qps_leaf_result Let_def qp_after_def
  using covered_cell [OF assms(4-7), of "loc_x cu_loc" "loc_y cu_loc"]
  by (simp add: uvg_cu_array_at_def)


lemma covered_box:
  assumes "x mod 4 = 0" "y mod 4 = 0" "w mod 4 = 0" "h mod 4 = 0"
  shows "(\<lambda>(x, y). (x div 4, y div 4)) ` (set (for_steps x (x + w) 4) \<times> set (for_steps y (y + h) 4))
       = {(cx, cy). x div 4 \<le> cx \<and> cx < (x + w) div 4 \<and> y div 4 \<le> cy \<and> cy < (y + h) div 4}"
    (is "?L = ?R")
proof (intro set_eqI iffI)
  fix c assume "c \<in> ?L"
  then obtain k m where c: "c = ((x + k * 4) div 4, (y + m * 4) div 4)"
    and k: "0 \<le> k" "x + k * 4 < x + w" and m: "0 \<le> m" "y + m * 4 < y + h"
    by (auto simp: for_steps_mem)
  from assms obtain x' y' w' h' where d: "x = 4 * x'" "y = 4 * y'" "w = 4 * w'" "h = 4 * h'"
    by (metis mod_eq_0_iff_dvd dvd_def)
  from k m show "c \<in> ?R"
    unfolding c d by simp
next
  fix c assume "c \<in> ?R"
  then obtain cx cy where c: "c = (cx, cy)"
    and b: "x div 4 \<le> cx" "cx < (x + w) div 4" "y div 4 \<le> cy" "cy < (y + h) div 4"
    by auto
  from assms obtain x' y' w' h' where d: "x = 4 * x'" "y = 4 * y'" "w = 4 * w'" "h = 4 * h'"
    by (metis mod_eq_0_iff_dvd dvd_def)
  have "(x + 4 * (cx - x')) div 4 = cx" "(y + 4 * (cy - y')) div 4 = cy"
    unfolding d by simp_all
  moreover have "((x + 4 * (cx - x')) div 4, (y + 4 * (cy - y')) div 4) \<in> ?L"
    using b unfolding d by (intro covered_cell) simp_all
  ultimately show "c \<in> ?L" unfolding c by simp
qed

lemma example_row_start_qp:
  "qp_after (set_cu_qps 1 example_env example_grid (uvg_cu_loc_ctor 0 64 64 64) 20 (- 1) 0) 0 64
     = Some 30"
proof -
  let ?L = "uvg_cu_loc_ctor 0 64 64 64"
  have l: "loc_x ?L = 0" "loc_y ?L = 64" "loc_width ?L = 64" "loc_height ?L = 64"
    by (simp_all add: uvg_cu_loc_ctor_def)
  have r: "uvg_get_cu_ref_qp example_env example_grid 0 64 20 = 30"
    by (simp add: uvg_get_cu_ref_qp_def x_qg_def y_qg_def qg_width_def qg_height_def
        example_env_def example_grid_def uvg_cu_array_at_def signed_modulo_int_def)
  have c: "\<not> cbf_found example_env example_grid ?L (- 1)"
    by (simp add: cbf_found_def l) (simp add: example_env_def example_grid_def uvg_cu_array_at_def)
  have a: "loc_x ?L < frame_width example_env" "loc_y ?L < frame_height example_env"
    "loc_width ?L \<le> push_bit (log2_width (uvg_cu_array_at example_grid (loc_x ?L) (loc_y ?L))) 1"
    "(0::int) \<le> 0" "4 * 0 < loc_width ?L" "4 * 0 < loc_height ?L"
    by (simp_all add: l) (simp_all add: example_env_def example_grid_def uvg_cu_array_at_def)
  have m: "max_qp_delta_depth example_env = 0"
    by (simp add: example_env_def)
  from set_cu_qps_leaf_cell [OF a(1,2,3,4,5,4,6), of 0 20 "- 1" 0]
  show ?thesis
    unfolding l m by (simp add: c r)
qed


lemma leaf_grid_at:
  assumes "loc_x L mod 4 = 0" "loc_y L mod 4 = 0" "loc_width L mod 4 = 0" "loc_height L mod 4 = 0"
  shows "fst (set_cu_qps_leaf E cua L l p) (cx, cy) =
     (if loc_x L div 4 \<le> cx \<and> cx < (loc_x L + loc_width L) div 4
         \<and> loc_y L div 4 \<le> cy \<and> cy < (loc_y L + loc_height L) div 4
      then (cua (cx, cy))\<lparr>qp := (if cbf_found E cua L p
              then qp (uvg_cu_array_at cua (loc_x L) (loc_y L))
              else word_of_int (uvg_get_cu_ref_qp E cua (loc_x L) (loc_y L) l))\<rparr>
      else cua (cx, cy))"
  unfolding set_cu_qps_leaf_result Let_def covered_box [OF assms] by simp

lemma leaf_prev_qp:
  "snd (snd (set_cu_qps_leaf E cua L l p)) =
     (if cbf_found E cua L p then sint (qp (uvg_cu_array_at cua (loc_x L) (loc_y L))) else p)"
  unfolding set_cu_qps_leaf_result Let_def by simp


subsection \<open>The walk is the run of its events\<close>

text \<open>
  The events depend on the grid through \<^verbatim>\<open>log2_width\<close> only, which no event changes; so
  the events of the later sub-regions can be read off the grid as it was at the call.
\<close>

declare set_cu_qps.simps [simp del] set_cu_qps_events.simps [simp del]

lemma events_grid_indep:
  assumes "\<And>c. log2_width (cua' c) = log2_width (cua c)"
  shows "set_cu_qps_events fuel E cua' cu_loc depth = set_cu_qps_events fuel E cua cu_loc depth"
proof (induction fuel arbitrary: cu_loc depth)
  case 0
  show ?case by (simp add: set_cu_qps_events.simps)
next
  case (Suc fuel)
  show ?case
    by (simp add: set_cu_qps_events.simps(2) [of fuel] Suc.IH assms uvg_cu_array_at_def)
qed

lemma leaf_fields:
  "log2_width (fst (set_cu_qps_leaf E cua L l p) c) = log2_width (cua c)"
  "log2_height (fst (set_cu_qps_leaf E cua L l p) c) = log2_height (cua c)"
  "cbf (fst (set_cu_qps_leaf E cua L l p) c) = cbf (cua c)"
  unfolding set_cu_qps_leaf_result Let_def by simp_all

lemma step_fields:
  "log2_width (fst (qp_event_step E ev s) c) = log2_width (fst s c)"
  "log2_height (fst (qp_event_step E ev s) c) = log2_height (fst s c)"
  "cbf (fst (qp_event_step E ev s) c) = cbf (fst s c)"
  by (cases ev; cases s; simp add: leaf_fields)+

lemma run_fields:
  "log2_width (fst (fold (qp_event_step E) evs s) c) = log2_width (fst s c)"
  "log2_height (fst (fold (qp_event_step E) evs s) c) = log2_height (fst s c)"
  "cbf (fst (fold (qp_event_step E) evs s) c) = cbf (fst s c)"
  by (induction evs arbitrary: s; simp add: step_fields)+

lemma set_cu_qps_trace:
  "set_cu_qps fuel E cua cu_loc last_qp prev_qp depth =
     map_option (\<lambda>evs. fold (qp_event_step E) evs (cua, last_qp, prev_qp))
       (set_cu_qps_events fuel E cua cu_loc depth)"
proof (induction fuel arbitrary: cua cu_loc last_qp prev_qp depth)
  case 0
  show ?case by (simp add: set_cu_qps.simps set_cu_qps_events.simps)
next
  case (Suc fuel)
  have ind': "set_cu_qps_events fuel E (fst (fold (qp_event_step E) evs s)) L d
           = set_cu_qps_events fuel E (fst s) L d" for evs s L d
    by (rule events_grid_indep) (simp add: run_fields)
  have ih: "set_cu_qps fuel E (fst s) L (fst (snd s)) (snd (snd s)) d =
     map_option (\<lambda>evs. fold (qp_event_step E) evs s) (set_cu_qps_events fuel E (fst s) L d)"
    for s L d
    using Suc.IH [of "fst s" L "fst (snd s)" "snd (snd s)" d] by simp
  show ?case
  proof (cases "loc_x cu_loc \<ge> frame_width E \<or> loc_y cu_loc \<ge> frame_height E")
    case True
    then show ?thesis
      by (simp add: set_cu_qps.simps(2) [of fuel] set_cu_qps_events.simps(2) [of fuel])
  next
    case False
    have b: "Option.bind x (\<lambda>y. Some (f y)) = map_option f x" for x :: "'a option" and f :: "'a \<Rightarrow> 'b"
      by (cases x) simp_all
    show ?thesis
      using False
      by (simp add: b set_cu_qps.simps(2) [of fuel] set_cu_qps_events.simps(2) [of fuel]
          Let_def case_prod_unfold Suc.IH ih ind' bind_map_option map_option_bind comp_def option.map_comp)
  qed
qed


subsection \<open>The walk returns when the shifts halve the region\<close>

lemma push_bit_one_pos: "(1::int) \<le> push_bit k 1"
  by (simp add: push_bit_eq_mult)

lemma drop_bit_half: "0 \<le> w \<Longrightarrow> 1 \<le> s \<Longrightarrow> drop_bit s (w::int) \<le> w div 2"
proof -
  assume w: "0 \<le> w" and s: "1 \<le> s"
  then obtain t where t: "s = Suc t" by (cases s) simp_all
  have "drop_bit s w = drop_bit t (w div 2)"
    unfolding t by (simp add: drop_bit_Suc)
  also have "\<dots> \<le> w div 2"
  proof -
    have "0 \<le> w div 2" using w by simp
    from zdiv_mono2 [OF this, of 1 "2 ^ t"] show ?thesis
      by (simp add: drop_bit_eq_div)
  qed
  finally show ?thesis .
qed

lemma events_outside:
  assumes "loc_x cu_loc \<ge> frame_width E \<or> loc_y cu_loc \<ge> frame_height E"
  shows "set_cu_qps_events (Suc fuel) E cua cu_loc depth = Some []"
  using assms by (simp add: set_cu_qps_events.simps(2) [of fuel])

lemma events_leaf:
  assumes "loc_x cu_loc < frame_width E" "loc_y cu_loc < frame_height E"
    and "\<not> loc_width cu_loc
           > push_bit (log2_width (uvg_cu_array_at cua (loc_x cu_loc) (loc_y cu_loc))) 1"
  shows "set_cu_qps_events (Suc fuel) E cua cu_loc depth =
           Some ((if depth \<le> max_qp_delta_depth E then [QG_start] else []) @ [CU_visit cu_loc])"
  using assms by (simp add: set_cu_qps_events.simps(2) [of fuel] Let_def)

lemma events_split:
  assumes "loc_x cu_loc < frame_width E" "loc_y cu_loc < frame_height E"
    and "loc_width cu_loc
           > push_bit (log2_width (uvg_cu_array_at cua (loc_x cu_loc) (loc_y cu_loc))) 1"
    and "hw = drop_bit (chroma_scale_x E) (loc_width cu_loc)"
    and "hh = drop_bit (chroma_scale_y E) (loc_height cu_loc)"
    and "set_cu_qps_events fuel E cua (uvg_cu_loc_ctor (loc_x cu_loc) (loc_y cu_loc) hw hh)
           (depth + 1) = Some evs1"
    and "set_cu_qps_events fuel E cua (uvg_cu_loc_ctor (loc_x cu_loc + hw) (loc_y cu_loc) hw hh)
           (depth + 1) = Some evs2"
    and "set_cu_qps_events fuel E cua (uvg_cu_loc_ctor (loc_x cu_loc) (loc_y cu_loc + hh) hw hh)
           (depth + 1) = Some evs3"
    and "set_cu_qps_events fuel E cua (uvg_cu_loc_ctor (loc_x cu_loc + hw) (loc_y cu_loc + hh) hw hh)
           (depth + 1) = Some evs4"
  shows "set_cu_qps_events (Suc fuel) E cua cu_loc depth =
           Some ((if depth \<le> max_qp_delta_depth E then [QG_start] else [])
                 @ evs1 @ evs2 @ evs3 @ evs4)"
  using assms(1-3) assms(6-9) [unfolded assms(4,5)]
  by (simp add: set_cu_qps_events.simps(2) [of fuel] Let_def)

lemma events_split_cases:
  assumes "set_cu_qps_events (Suc fuel) E cua cu_loc depth = Some evs"
    and "loc_x cu_loc < frame_width E" "loc_y cu_loc < frame_height E"
    and "loc_width cu_loc
           > push_bit (log2_width (uvg_cu_array_at cua (loc_x cu_loc) (loc_y cu_loc))) 1"
    and "hw = drop_bit (chroma_scale_x E) (loc_width cu_loc)"
    and "hh = drop_bit (chroma_scale_y E) (loc_height cu_loc)"
  shows "\<exists>evs1 evs2 evs3 evs4.
      set_cu_qps_events fuel E cua (uvg_cu_loc_ctor (loc_x cu_loc) (loc_y cu_loc) hw hh)
           (depth + 1) = Some evs1
    \<and> set_cu_qps_events fuel E cua (uvg_cu_loc_ctor (loc_x cu_loc + hw) (loc_y cu_loc) hw hh)
           (depth + 1) = Some evs2
    \<and> set_cu_qps_events fuel E cua (uvg_cu_loc_ctor (loc_x cu_loc) (loc_y cu_loc + hh) hw hh)
           (depth + 1) = Some evs3
    \<and> set_cu_qps_events fuel E cua (uvg_cu_loc_ctor (loc_x cu_loc + hw) (loc_y cu_loc + hh) hw hh)
           (depth + 1) = Some evs4
    \<and> evs = (if depth \<le> max_qp_delta_depth E then [QG_start] else [])
                 @ evs1 @ evs2 @ evs3 @ evs4"
  using assms(1-4) unfolding assms(5,6)
  by (auto simp add: set_cu_qps_events.simps(2) [of fuel] Let_def bind_eq_Some_conv)

lemma events_return:
  assumes "1 \<le> chroma_scale_x E" "loc_width cu_loc \<le> 2 ^ n"
  shows "\<exists>evs. set_cu_qps_events (Suc n) E cua cu_loc depth = Some evs"
  using assms(2)
proof (induction n arbitrary: cu_loc depth)
  case 0
  then have "\<not> loc_width cu_loc > push_bit k 1" for k
    using push_bit_one_pos [of k] by (simp del: push_bit_of_1)
  then show ?case
    by (simp add: set_cu_qps_events.simps(2) [of 0] Let_def)
next
  case (Suc n)
  let ?w = "push_bit (log2_width (uvg_cu_array_at cua (loc_x cu_loc) (loc_y cu_loc))) (1::int)"
  consider "loc_x cu_loc \<ge> frame_width E \<or> loc_y cu_loc \<ge> frame_height E"
    | "loc_x cu_loc < frame_width E" "loc_y cu_loc < frame_height E" "\<not> loc_width cu_loc > ?w"
    | "loc_x cu_loc < frame_width E" "loc_y cu_loc < frame_height E" "loc_width cu_loc > ?w"
    by linarith
  then show ?case
  proof cases
    case 1
    then show ?thesis by (simp add: events_outside)
  next
    case 2
    then show ?thesis by (simp add: events_leaf)
  next
    case 3
    define hw where "hw = drop_bit (chroma_scale_x E) (loc_width cu_loc)"
    define hh where "hh = drop_bit (chroma_scale_y E) (loc_height cu_loc)"
    from 3(3) have "0 \<le> loc_width cu_loc"
      using push_bit_one_pos [of "log2_width (uvg_cu_array_at cua (loc_x cu_loc) (loc_y cu_loc))"]
      by (simp del: push_bit_of_1)
    from drop_bit_half [OF this assms(1)] Suc.prems
    have h: "hw \<le> 2 ^ n"
      unfolding hw_def by simp
    have c: "\<exists>evs. set_cu_qps_events (Suc n) E cua (uvg_cu_loc_ctor x y hw hh) d = Some evs"
      for x y d
      by (rule Suc.IH) (simp add: uvg_cu_loc_ctor_def h)
    from c obtain evs1 where 1: "set_cu_qps_events (Suc n) E cua
        (uvg_cu_loc_ctor (loc_x cu_loc) (loc_y cu_loc) hw hh) (depth + 1) = Some evs1" by blast
    from c obtain evs2 where 2: "set_cu_qps_events (Suc n) E cua
        (uvg_cu_loc_ctor (loc_x cu_loc + hw) (loc_y cu_loc) hw hh) (depth + 1) = Some evs2" by blast
    from c obtain evs3 where 3: "set_cu_qps_events (Suc n) E cua
        (uvg_cu_loc_ctor (loc_x cu_loc) (loc_y cu_loc + hh) hw hh) (depth + 1) = Some evs3" by blast
    from c obtain evs4 where 4: "set_cu_qps_events (Suc n) E cua
        (uvg_cu_loc_ctor (loc_x cu_loc + hw) (loc_y cu_loc + hh) hw hh) (depth + 1) = Some evs4" by blast
    from events_split [OF \<open>loc_x cu_loc < frame_width E\<close> \<open>loc_y cu_loc < frame_height E\<close>
        \<open>loc_width cu_loc > ?w\<close> hw_def hh_def 1 2 3 4]
    show ?thesis by blast
  qed
qed


subsection \<open>The regions of the leaf calls lie apart\<close>

lemma apart_inside:
  assumes "regions_apart a b" "region_inside a' a" "region_inside b' b"
  shows "regions_apart a' b'"
  using assms unfolding regions_apart_def region_inside_def by linarith

lemma events_apart_inside:
  assumes "regions_apart a b"
    and "\<And>L. e = CU_visit L \<Longrightarrow> region_inside L a"
    and "\<And>L. e' = CU_visit L \<Longrightarrow> region_inside L b"
  shows "events_apart e e'"
proof (cases e)
  case QG_start
  then show ?thesis by simp
next
  case (CU_visit L)
  note e = this
  show ?thesis
  proof (cases e')
    case QG_start
    then show ?thesis by (simp add: e)
  next
    case (CU_visit L')
    with e assms show ?thesis by (simp add: apart_inside)
  qed
qed

lemma children_regions:
  fixes w h :: int
  assumes "0 \<le> w" "0 \<le> h" "hw = drop_bit (Suc 0) w" "hh = drop_bit (Suc 0) h"
    and "cu_loc = \<lparr>loc_x = x, loc_y = y, loc_width = w, loc_height = h\<rparr>"
  shows "0 \<le> hw" "0 \<le> hh"
    "region_inside (uvg_cu_loc_ctor x y hw hh) cu_loc"
    "region_inside (uvg_cu_loc_ctor (x + hw) y hw hh) cu_loc"
    "region_inside (uvg_cu_loc_ctor x (y + hh) hw hh) cu_loc"
    "region_inside (uvg_cu_loc_ctor (x + hw) (y + hh) hw hh) cu_loc"
    "regions_apart (uvg_cu_loc_ctor x y hw hh) (uvg_cu_loc_ctor (x + hw) y hw hh)"
    "regions_apart (uvg_cu_loc_ctor x y hw hh) (uvg_cu_loc_ctor x (y + hh) hw hh)"
    "regions_apart (uvg_cu_loc_ctor x y hw hh) (uvg_cu_loc_ctor (x + hw) (y + hh) hw hh)"
    "regions_apart (uvg_cu_loc_ctor (x + hw) y hw hh) (uvg_cu_loc_ctor x (y + hh) hw hh)"
    "regions_apart (uvg_cu_loc_ctor (x + hw) y hw hh) (uvg_cu_loc_ctor (x + hw) (y + hh) hw hh)"
    "regions_apart (uvg_cu_loc_ctor x (y + hh) hw hh) (uvg_cu_loc_ctor (x + hw) (y + hh) hw hh)"
proof -
  have "hw = w div 2" "hh = h div 2"
    using assms(3,4) by (simp_all add: drop_bit_eq_div)
  with assms(1,2) have b: "0 \<le> hw" "0 \<le> hh" "hw + hw \<le> w" "hh + hh \<le> h"
    by simp_all
  show "0 \<le> hw" "0 \<le> hh" by (rule b)+
  show "region_inside (uvg_cu_loc_ctor x y hw hh) cu_loc"
    "region_inside (uvg_cu_loc_ctor (x + hw) y hw hh) cu_loc"
    "region_inside (uvg_cu_loc_ctor x (y + hh) hw hh) cu_loc"
    "region_inside (uvg_cu_loc_ctor (x + hw) (y + hh) hw hh) cu_loc"
    using b unfolding region_inside_def uvg_cu_loc_ctor_def assms(5) by simp_all
  show "regions_apart (uvg_cu_loc_ctor x y hw hh) (uvg_cu_loc_ctor (x + hw) y hw hh)"
    "regions_apart (uvg_cu_loc_ctor x y hw hh) (uvg_cu_loc_ctor x (y + hh) hw hh)"
    "regions_apart (uvg_cu_loc_ctor x y hw hh) (uvg_cu_loc_ctor (x + hw) (y + hh) hw hh)"
    "regions_apart (uvg_cu_loc_ctor (x + hw) y hw hh) (uvg_cu_loc_ctor x (y + hh) hw hh)"
    "regions_apart (uvg_cu_loc_ctor (x + hw) y hw hh) (uvg_cu_loc_ctor (x + hw) (y + hh) hw hh)"
    "regions_apart (uvg_cu_loc_ctor x (y + hh) hw hh) (uvg_cu_loc_ctor (x + hw) (y + hh) hw hh)"
    using b unfolding regions_apart_def uvg_cu_loc_ctor_def by simp_all
qed

lemma inside_trans:
  "region_inside a b \<Longrightarrow> region_inside b c \<Longrightarrow> region_inside a c"
  unfolding region_inside_def by linarith

lemma events_inside:
  assumes "chroma_scale_x E = 1" "chroma_scale_y E = 1"
  shows "set_cu_qps_events fuel E cua cu_loc depth = Some evs \<Longrightarrow>
         0 \<le> loc_width cu_loc \<Longrightarrow> 0 \<le> loc_height cu_loc \<Longrightarrow>
         CU_visit L \<in> set evs \<Longrightarrow> region_inside L cu_loc"
proof (induction fuel arbitrary: cu_loc depth evs)
  case 0
  then show ?case by (simp add: set_cu_qps_events.simps)
next
  case (Suc fuel)
  let ?w = "push_bit (log2_width (uvg_cu_array_at cua (loc_x cu_loc) (loc_y cu_loc))) (1::int)"
  consider "loc_x cu_loc \<ge> frame_width E \<or> loc_y cu_loc \<ge> frame_height E"
    | "loc_x cu_loc < frame_width E" "loc_y cu_loc < frame_height E" "\<not> loc_width cu_loc > ?w"
    | "loc_x cu_loc < frame_width E" "loc_y cu_loc < frame_height E" "loc_width cu_loc > ?w"
    by linarith
  then show ?case
  proof cases
    case 1
    with Suc.prems(1,4) show ?thesis by (simp add: events_outside)
  next
    case 2
    with Suc.prems(1,4) have "L = cu_loc"
      by (auto simp add: events_leaf split: if_splits)
    then show ?thesis by (simp add: region_inside_def)
  next
    case 3
    define hw where "hw = drop_bit (chroma_scale_x E) (loc_width cu_loc)"
    define hh where "hh = drop_bit (chroma_scale_y E) (loc_height cu_loc)"
    have l: "cu_loc = \<lparr>loc_x = loc_x cu_loc, loc_y = loc_y cu_loc,
        loc_width = loc_width cu_loc, loc_height = loc_height cu_loc\<rparr>"
      by simp
    note ch = children_regions [OF Suc.prems(2,3) hw_def [unfolded assms One_nat_def]
        hh_def [unfolded assms One_nat_def] l]
    have n: "0 \<le> loc_width (uvg_cu_loc_ctor x y hw hh)" "0 \<le> loc_height (uvg_cu_loc_ctor x y hw hh)"
      for x y
      using ch(1,2) by (simp_all add: uvg_cu_loc_ctor_def)
    from events_split_cases [OF Suc.prems(1) 3 hw_def hh_def]
    obtain evs1 evs2 evs3 evs4 where
      e: "set_cu_qps_events fuel E cua (uvg_cu_loc_ctor (loc_x cu_loc) (loc_y cu_loc) hw hh)
           (depth + 1) = Some evs1"
        "set_cu_qps_events fuel E cua (uvg_cu_loc_ctor (loc_x cu_loc + hw) (loc_y cu_loc) hw hh)
           (depth + 1) = Some evs2"
        "set_cu_qps_events fuel E cua (uvg_cu_loc_ctor (loc_x cu_loc) (loc_y cu_loc + hh) hw hh)
           (depth + 1) = Some evs3"
        "set_cu_qps_events fuel E cua (uvg_cu_loc_ctor (loc_x cu_loc + hw) (loc_y cu_loc + hh) hw hh)
           (depth + 1) = Some evs4"
      and evs: "evs = (if depth \<le> max_qp_delta_depth E then [QG_start] else [])
                 @ evs1 @ evs2 @ evs3 @ evs4"
      by blast
    from Suc.prems(4) evs
    consider "CU_visit L \<in> set evs1" | "CU_visit L \<in> set evs2"
      | "CU_visit L \<in> set evs3" | "CU_visit L \<in> set evs4"
      by (auto split: if_splits)
    then show ?thesis
    proof cases
      case 1
      from Suc.IH [OF e(1) n this] ch(3) show ?thesis by (rule inside_trans)
    next
      case 2
      from Suc.IH [OF e(2) n this] ch(4) show ?thesis by (rule inside_trans)
    next
      case 3
      from Suc.IH [OF e(3) n this] ch(5) show ?thesis by (rule inside_trans)
    next
      case 4
      from Suc.IH [OF e(4) n this] ch(6) show ?thesis by (rule inside_trans)
    qed
  qed
qed

lemma events_sorted:
  assumes "chroma_scale_x E = 1" "chroma_scale_y E = 1"
  shows "set_cu_qps_events fuel E cua cu_loc depth = Some evs \<Longrightarrow>
         0 \<le> loc_width cu_loc \<Longrightarrow> 0 \<le> loc_height cu_loc \<Longrightarrow>
         sorted_wrt events_apart evs"
proof (induction fuel arbitrary: cu_loc depth evs)
  case 0
  then show ?case by (simp add: set_cu_qps_events.simps)
next
  case (Suc fuel)
  let ?w = "push_bit (log2_width (uvg_cu_array_at cua (loc_x cu_loc) (loc_y cu_loc))) (1::int)"
  consider "loc_x cu_loc \<ge> frame_width E \<or> loc_y cu_loc \<ge> frame_height E"
    | "loc_x cu_loc < frame_width E" "loc_y cu_loc < frame_height E" "\<not> loc_width cu_loc > ?w"
    | "loc_x cu_loc < frame_width E" "loc_y cu_loc < frame_height E" "loc_width cu_loc > ?w"
    by linarith
  then show ?case
  proof cases
    case 1
    with Suc.prems(1) show ?thesis by (simp add: events_outside)
  next
    case 2
    with Suc.prems(1) show ?thesis
      by (auto simp add: events_leaf split: if_splits)
  next
    case 3
    define hw where "hw = drop_bit (chroma_scale_x E) (loc_width cu_loc)"
    define hh where "hh = drop_bit (chroma_scale_y E) (loc_height cu_loc)"
    have l: "cu_loc = \<lparr>loc_x = loc_x cu_loc, loc_y = loc_y cu_loc,
        loc_width = loc_width cu_loc, loc_height = loc_height cu_loc\<rparr>"
      by simp
    note ch = children_regions [OF Suc.prems(2,3) hw_def [unfolded assms One_nat_def]
        hh_def [unfolded assms One_nat_def] l]
    have n: "0 \<le> loc_width (uvg_cu_loc_ctor x y hw hh)" "0 \<le> loc_height (uvg_cu_loc_ctor x y hw hh)"
      for x y
      using ch(1,2) by (simp_all add: uvg_cu_loc_ctor_def)
    from events_split_cases [OF Suc.prems(1) 3 hw_def hh_def]
    obtain evs1 evs2 evs3 evs4 where
      e: "set_cu_qps_events fuel E cua (uvg_cu_loc_ctor (loc_x cu_loc) (loc_y cu_loc) hw hh)
           (depth + 1) = Some evs1"
        "set_cu_qps_events fuel E cua (uvg_cu_loc_ctor (loc_x cu_loc + hw) (loc_y cu_loc) hw hh)
           (depth + 1) = Some evs2"
        "set_cu_qps_events fuel E cua (uvg_cu_loc_ctor (loc_x cu_loc) (loc_y cu_loc + hh) hw hh)
           (depth + 1) = Some evs3"
        "set_cu_qps_events fuel E cua (uvg_cu_loc_ctor (loc_x cu_loc + hw) (loc_y cu_loc + hh) hw hh)
           (depth + 1) = Some evs4"
      and evs: "evs = (if depth \<le> max_qp_delta_depth E then [QG_start] else [])
                 @ evs1 @ evs2 @ evs3 @ evs4"
      by blast
    note s = Suc.IH [OF e(1) n] Suc.IH [OF e(2) n] Suc.IH [OF e(3) n] Suc.IH [OF e(4) n]
    note i = events_inside [OF assms e(1) n] events_inside [OF assms e(2) n]
      events_inside [OF assms e(3) n] events_inside [OF assms e(4) n]
    have c: "events_apart a b"
      if "a \<in> set evs1 \<and> b \<in> set evs2 \<or> a \<in> set evs1 \<and> b \<in> set evs3
        \<or> a \<in> set evs1 \<and> b \<in> set evs4 \<or> a \<in> set evs2 \<and> b \<in> set evs3
        \<or> a \<in> set evs2 \<and> b \<in> set evs4 \<or> a \<in> set evs3 \<and> b \<in> set evs4" for a b
      using that
    proof (elim disjE conjE)
      assume "a \<in> set evs1" "b \<in> set evs2"
      then show ?thesis by (intro events_apart_inside [OF ch(7)] i) simp_all
    next
      assume "a \<in> set evs1" "b \<in> set evs3"
      then show ?thesis by (intro events_apart_inside [OF ch(8)] i) simp_all
    next
      assume "a \<in> set evs1" "b \<in> set evs4"
      then show ?thesis by (intro events_apart_inside [OF ch(9)] i) simp_all
    next
      assume "a \<in> set evs2" "b \<in> set evs3"
      then show ?thesis by (intro events_apart_inside [OF ch(10)] i) simp_all
    next
      assume "a \<in> set evs2" "b \<in> set evs4"
      then show ?thesis by (intro events_apart_inside [OF ch(11)] i) simp_all
    next
      assume "a \<in> set evs3" "b \<in> set evs4"
      then show ?thesis by (intro events_apart_inside [OF ch(12)] i) simp_all
    qed
    have "sorted_wrt events_apart (evs1 @ evs2 @ evs3 @ evs4)"
      unfolding sorted_wrt_append using s c by auto
    then show ?thesis
      unfolding evs by (simp split: if_splits)
  qed
qed


subsection \<open>The state at a visit and the cells of the visited CU\<close>

lemma region_is_cu_aligned:
  assumes "region_is_cu cua L"
  shows "aligned4 L" "4 \<le> loc_width L" "4 \<le> loc_height L"
proof -
  have p: "(2::int) ^ k mod 4 = 0 \<and> 4 \<le> (2::int) ^ k" if "2 \<le> k" for k
  proof -
    from that obtain m where "k = 2 + m" using le_Suc_ex by blast
    then show ?thesis by (simp add: power_add)
  qed
  from assms p show "aligned4 L" "4 \<le> loc_width L" "4 \<le> loc_height L"
    unfolding region_is_cu_def aligned4_def Let_def by (simp_all add: push_bit_eq_mult)
qed

lemma leaf_grid_cells:
  assumes "aligned4 L"
  shows "fst (set_cu_qps_leaf E cua L l p) c =
     (if c \<in> region_cells L
      then (cua c)\<lparr>qp := (if cbf_found E cua L p
              then qp (uvg_cu_array_at cua (loc_x L) (loc_y L))
              else word_of_int (uvg_get_cu_ref_qp E cua (loc_x L) (loc_y L) l))\<rparr>
      else cua c)"
proof -
  obtain cx cy where c: "c = (cx, cy)" by (cases c)
  from assms show ?thesis
    unfolding c aligned4_def region_cells_def by (simp add: leaf_grid_at)
qed

lemma apart_cells:
  assumes "aligned4 a" "aligned4 b" "regions_apart a b \<or> regions_apart b a" "c \<in> region_cells a"
  shows "c \<notin> region_cells b"
proof -
  obtain cx cy where c: "c = (cx, cy)" by (cases c)
  from assms(1) obtain x y w h where a: "loc_x a = 4 * x" "loc_y a = 4 * y"
      "loc_width a = 4 * w" "loc_height a = 4 * h"
    unfolding aligned4_def by (metis mod_eq_0_iff_dvd dvd_def)
  from assms(2) obtain x' y' w' h' where b: "loc_x b = 4 * x'" "loc_y b = 4 * y'"
      "loc_width b = 4 * w'" "loc_height b = 4 * h'"
    unfolding aligned4_def by (metis mod_eq_0_iff_dvd dvd_def)
  have d: "(4 * u + 4 * v) div 4 = u + v" for u v :: int by simp
  from assms(3,4) show ?thesis
    unfolding c region_cells_def regions_apart_def a b by (auto simp: d)
qed

lemma cell_in_region:
  assumes "aligned4 L" "0 \<le> i" "4 * i < loc_width L" "0 \<le> j" "4 * j < loc_height L"
  shows "((loc_x L + 4 * i) div 4, (loc_y L + 4 * j) div 4) \<in> region_cells L"
proof -
  from assms(1) obtain x y w h where a: "loc_x L = 4 * x" "loc_y L = 4 * y"
      "loc_width L = 4 * w" "loc_height L = 4 * h"
    unfolding aligned4_def by (metis mod_eq_0_iff_dvd dvd_def)
  have d: "(4 * u + 4 * v) div 4 = u + v" for u v :: int by simp
  from assms(2-5) show ?thesis
    unfolding region_cells_def a by (simp add: d)
qed

lemma run_keeps:
  assumes "\<And>L'. CU_visit L' \<in> set evs \<Longrightarrow> aligned4 L' \<and> c \<notin> region_cells L'"
  shows "fst (fold (qp_event_step E) evs s) c = fst s c"
  using assms
proof (induction evs arbitrary: s)
  case Nil
  show ?case by simp
next
  case (Cons e evs)
  have "fst (qp_event_step E e s) c = fst s c"
  proof (cases e)
    case QG_start
    then show ?thesis by (cases s) simp
  next
    case (CU_visit L')
    with Cons.prems [of L'] show ?thesis
      by (cases s) (simp add: leaf_grid_cells)
  qed
  with Cons.IH [of "qp_event_step E e s"] Cons.prems show ?case by simp
qed

lemma run_keeps_region:
  assumes "\<And>L'. CU_visit L' \<in> set evs \<Longrightarrow>
             aligned4 L' \<and> (regions_apart L' L \<or> regions_apart L L')"
    and "aligned4 L" "c \<in> region_cells L"
  shows "fst (fold (qp_event_step E) evs s) c = fst s c"
proof (rule run_keeps)
  fix L' assume "CU_visit L' \<in> set evs"
  from assms(1) [OF this] have a: "aligned4 L'" and r: "regions_apart L L' \<or> regions_apart L' L"
    by blast+
  from apart_cells [OF assms(2) a r assms(3)] a
  show "aligned4 L' \<and> c \<notin> region_cells L'" by simp
qed

lemma cbf_found_fields:
  assumes "\<And>c. log2_width (cua' c) = log2_width (cua c)" "\<And>c. cbf (cua' c) = cbf (cua c)"
  shows "cbf_found E cua' L p = cbf_found E cua L p"
  by (simp add: cbf_found_def uvg_cu_array_at_def assms Let_def)

lemma cbf_found_prev:
  "cbf_found E cua L p \<longleftrightarrow> p \<ge> 0 \<or> cu_has_cbf E cua L"
  by (auto simp: cbf_found_def cu_has_cbf_def Let_def)

lemma group_so_far_simps:
  "group_so_far [] = []"
  "group_so_far (evs @ [QG_start]) = []"
  "group_so_far (evs @ [CU_visit L]) = group_so_far evs @ [L]"
  by (simp_all add: group_so_far_def)

lemma leaf_last_qp:
  "fst (snd (set_cu_qps_leaf E cua L l p)) =
     (if is_last_cu_in_qg E L
      then sint (qp (uvg_cu_array_at (fst (set_cu_qps_leaf E cua L l p)) (loc_x L) (loc_y L)))
      else l)"
  unfolding set_cu_qps_leaf_result Let_def by simp


lemma origin_cell:
  assumes "region_is_cu cua L"
  shows "(loc_x L div 4, loc_y L div 4) \<in> region_cells L"
  using cell_in_region [of L 0 0] region_is_cu_aligned [OF assms] by simp

lemma stored_qp_kept:
  assumes "\<And>L'. CU_visit L' \<in> set evs \<Longrightarrow>
             region_is_cu cua L' \<and> (regions_apart L' L \<or> regions_apart L L')"
    and "region_is_cu cua L"
  shows "uvg_cu_array_at (fst (fold (qp_event_step E) evs (cua, l, p))) (loc_x L) (loc_y L)
       = uvg_cu_array_at cua (loc_x L) (loc_y L)"
proof -
  have "fst (fold (qp_event_step E) evs (cua, l, p)) (loc_x L div 4, loc_y L div 4)
      = fst (cua, l, p) (loc_x L div 4, loc_y L div 4)"
  proof (rule run_keeps_region [OF _ region_is_cu_aligned(1) [OF assms(2)] origin_cell [OF assms(2)]])
    fix L' assume "CU_visit L' \<in> set evs"
    from assms(1) [OF this]
    show "aligned4 L' \<and> (regions_apart L' L \<or> regions_apart L L')"
      using region_is_cu_aligned(1) by blast
  qed
  then show ?thesis by (simp add: uvg_cu_array_at_def)
qed

lemma run_invariant:
  assumes "\<And>L'. CU_visit L' \<in> set evs \<Longrightarrow> region_is_cu cua L' \<and> 0 \<le> stored_qp cua L'"
    and "sorted_wrt events_apart evs"
    and "- 128 \<le> last_qp" "last_qp \<le> 127"
  shows "(0 \<le> snd (snd (fold (qp_event_step E) evs (cua, last_qp, - 1)))
           \<longleftrightarrow> (\<exists>A\<in>set (group_so_far evs). cu_has_cbf E cua A))
       \<and> - 128 \<le> fst (snd (fold (qp_event_step E) evs (cua, last_qp, - 1)))
       \<and> fst (snd (fold (qp_event_step E) evs (cua, last_qp, - 1))) \<le> 127"
  using assms(1,2)
proof (induction evs rule: rev_induct)
  case Nil
  show ?case using assms(3,4) by (simp add: group_so_far_simps)
next
  case (snoc e evs)
  from snoc.prems(2) have srt: "sorted_wrt events_apart evs"
    and ap: "\<And>a. a \<in> set evs \<Longrightarrow> events_apart a e"
    by (simp_all add: sorted_wrt_append)
  have v: "\<And>L'. CU_visit L' \<in> set evs \<Longrightarrow> region_is_cu cua L' \<and> 0 \<le> stored_qp cua L'"
    using snoc.prems(1) by simp
  note ih = snoc.IH [OF v srt]
  obtain cua_m last_m prev_m where
    m: "fold (qp_event_step E) evs (cua, last_qp, - 1) = (cua_m, last_m, prev_m)"
    by (cases "fold (qp_event_step E) evs (cua, last_qp, - 1)")
  show ?case
  proof (cases e)
    case QG_start
    with ih show ?thesis by (simp add: m group_so_far_simps)
  next
    case (CU_visit A)
    from snoc.prems(1) [of A] have A: "region_is_cu cua A" "0 \<le> stored_qp cua A"
      by (simp_all add: CU_visit)
    have "uvg_cu_array_at (fst (fold (qp_event_step E) evs (cua, last_qp, - 1))) (loc_x A) (loc_y A)
        = uvg_cu_array_at cua (loc_x A) (loc_y A)"
    proof (rule stored_qp_kept [OF _ A(1)])
      fix L' assume l: "CU_visit L' \<in> set evs"
      from ap [OF l] v [OF l]
      show "region_is_cu cua L' \<and> (regions_apart L' A \<or> regions_apart A L')"
        by (simp add: CU_visit)
    qed
    then have own: "uvg_cu_array_at cua_m (loc_x A) (loc_y A) = uvg_cu_array_at cua (loc_x A) (loc_y A)"
      by (simp add: m)
    have f: "log2_width (cua_m c) = log2_width (cua c)" "cbf (cua_m c) = cbf (cua c)" for c
      using run_fields(1,3) [of E evs "(cua, last_qp, - 1)" c] by (simp_all add: m)
    have "cbf_found E cua_m A prev_m = cbf_found E cua A prev_m"
      by (rule cbf_found_fields [OF f])
    then have c: "cbf_found E cua_m A prev_m \<longleftrightarrow> 0 \<le> prev_m \<or> cu_has_cbf E cua A"
      by (simp add: cbf_found_prev)
    have st: "fold (qp_event_step E) (evs @ [e]) (cua, last_qp, - 1)
        = set_cu_qps_leaf E cua_m A last_m prev_m"
      by (simp add: m CU_visit)
    have p: "0 \<le> snd (snd (set_cu_qps_leaf E cua_m A last_m prev_m))
        \<longleftrightarrow> (\<exists>B\<in>set (group_so_far evs @ [A]). cu_has_cbf E cua B)"
      unfolding leaf_prev_qp c own using ih A(2) by (auto simp: m stored_qp_def)
    have l: "- 128 \<le> fst (snd (set_cu_qps_leaf E cua_m A last_m prev_m))
        \<and> fst (snd (set_cu_qps_leaf E cua_m A last_m prev_m)) \<le> 127"
      unfolding leaf_last_qp using ih sint8_range by (simp add: m)
    from p l show ?thesis
      unfolding st by (simp add: CU_visit group_so_far_simps)
  qed
qed

lemma visit_qp:
  assumes v: "\<And>L'. CU_visit L' \<in> set (before @ CU_visit L # after) \<Longrightarrow>
                region_is_cu cua L' \<and> 0 \<le> stored_qp cua L'"
    and s: "sorted_wrt events_apart (before @ CU_visit L # after)"
    and r: "- 128 \<le> last_qp" "last_qp \<le> 127"
    and cell: "0 \<le> i" "4 * i < loc_width L" "0 \<le> j" "4 * j < loc_height L"
    and m: "fold (qp_event_step E) before (cua, last_qp, - 1) = (cua_k, last_k, prev_k)"
  shows "sint (qp (uvg_cu_array_at
                    (fst (fold (qp_event_step E) (before @ CU_visit L # after) (cua, last_qp, - 1)))
                    (loc_x L + 4 * i) (loc_y L + 4 * j))) =
         (if \<exists>A\<in>set (group_so_far before @ [L]). cu_has_cbf E cua A
          then stored_qp cua L
          else uvg_get_cu_ref_qp E cua_k (loc_x L) (loc_y L) last_k)"
proof -
  define c where "c = ((loc_x L + 4 * i) div 4, (loc_y L + 4 * j) div 4)"
  have at: "uvg_cu_array_at G (loc_x L + 4 * i) (loc_y L + 4 * j) = G c" for G
    unfolding c_def uvg_cu_array_at_def ..
  from s have sb: "sorted_wrt events_apart before"
    and apb: "\<And>a. a \<in> set before \<Longrightarrow> events_apart a (CU_visit L)"
    and apa: "\<And>a. a \<in> set after \<Longrightarrow> events_apart (CU_visit L) a"
    by (simp_all add: sorted_wrt_append)
  have vb: "\<And>L'. CU_visit L' \<in> set before \<Longrightarrow> region_is_cu cua L' \<and> 0 \<le> stored_qp cua L'"
    using v by simp
  have va: "\<And>L'. CU_visit L' \<in> set after \<Longrightarrow> region_is_cu cua L'"
    using v by simp
  from v [of L] have L: "region_is_cu cua L" by simp
  note al = region_is_cu_aligned(1) [OF L]
  have c: "c \<in> region_cells L"
    unfolding c_def by (rule cell_in_region [OF al cell])
  note inv = run_invariant [OF vb sb r, of E, unfolded m, simplified]
  have "uvg_cu_array_at (fst (fold (qp_event_step E) before (cua, last_qp, - 1))) (loc_x L) (loc_y L)
      = uvg_cu_array_at cua (loc_x L) (loc_y L)"
  proof (rule stored_qp_kept [OF _ L])
    fix L' assume l: "CU_visit L' \<in> set before"
    from apb [OF l] vb [OF l]
    show "region_is_cu cua L' \<and> (regions_apart L' L \<or> regions_apart L L')"
      by simp
  qed
  then have own: "uvg_cu_array_at cua_k (loc_x L) (loc_y L) = uvg_cu_array_at cua (loc_x L) (loc_y L)"
    by (simp add: m)
  have f: "log2_width (cua_k c) = log2_width (cua c)" "cbf (cua_k c) = cbf (cua c)" for c
    using run_fields(1,3) [of E before "(cua, last_qp, - 1)" c] by (simp_all add: m)
  have "cbf_found E cua_k L prev_k = cbf_found E cua L prev_k"
    by (rule cbf_found_fields [OF f])
  then have cb: "cbf_found E cua_k L prev_k
      \<longleftrightarrow> (\<exists>A\<in>set (group_so_far before @ [L]). cu_has_cbf E cua A)"
    using inv by (auto simp: cbf_found_prev)
  have rng: "sint (word_of_int (uvg_get_cu_ref_qp E cua_k (loc_x L) (loc_y L) last_k) :: 8 word)
      = uvg_get_cu_ref_qp E cua_k (loc_x L) (loc_y L) last_k"
    using uvg_get_cu_ref_qp_range [of last_k E cua_k "loc_x L" "loc_y L"] inv
    by (simp add: sint8_of_int)
  have "fst (fold (qp_event_step E) (before @ CU_visit L # after) (cua, last_qp, - 1)) c
      = fst (fold (qp_event_step E) after (set_cu_qps_leaf E cua_k L last_k prev_k)) c"
    by (simp add: m)
  also have "\<dots> = fst (set_cu_qps_leaf E cua_k L last_k prev_k) c"
  proof (rule run_keeps_region [OF _ al c])
    fix L' assume l: "CU_visit L' \<in> set after"
    from apa [OF l] va [OF l]
    show "aligned4 L' \<and> (regions_apart L' L \<or> regions_apart L L')"
      using region_is_cu_aligned(1) by auto
  qed
  finally show ?thesis
    unfolding at
    by (simp add: leaf_grid_cells [OF al] c cb own rng stored_qp_def)
qed


subsection \<open>The QPs that the CUs of a quantization group receive\<close>

lemma example_events16:
  "set_cu_qps_events (Suc 6) example_env_qg32 example_grid16 (uvg_cu_loc_ctor 0 0 64 64) 0 =
     Some [QG_start, QG_start,
           CU_visit (uvg_cu_loc_ctor 0 0 16 16), CU_visit (uvg_cu_loc_ctor 16 0 16 16),
           CU_visit (uvg_cu_loc_ctor 0 16 16 16), CU_visit (uvg_cu_loc_ctor 16 16 16 16),
           QG_start, CU_visit (uvg_cu_loc_ctor 32 0 32 32),
           QG_start, CU_visit (uvg_cu_loc_ctor 0 32 32 32),
           QG_start, CU_visit (uvg_cu_loc_ctor 32 32 32 32)]"
  by (simp add: set_cu_qps_events.simps eval_nat_numeral example_env_qg32_def example_env_def
      example_grid16_def uvg_cu_array_at_def uvg_cu_loc_ctor_def Let_def drop_bit_eq_div)

lemma example_cus16:
  "list_all (\<lambda>L. region_is_cu example_grid16 L \<and> 0 \<le> stored_qp example_grid16 L)
     [uvg_cu_loc_ctor 0 0 16 16, uvg_cu_loc_ctor 16 0 16 16,
      uvg_cu_loc_ctor 0 16 16 16, uvg_cu_loc_ctor 16 16 16 16,
      uvg_cu_loc_ctor 32 0 32 32, uvg_cu_loc_ctor 0 32 32 32, uvg_cu_loc_ctor 32 32 32 32]"
  by (simp add: region_is_cu_def stored_qp_def example_grid16_def uvg_cu_array_at_def
      uvg_cu_loc_ctor_def)

lemma example_groups16:
  "find (cu_has_cbf example_env_qg32 example_grid16)
     (group_so_far [QG_start, QG_start] @ [uvg_cu_loc_ctor 0 0 16 16]) = None"
  "find (cu_has_cbf example_env_qg32 example_grid16)
     (group_so_far [QG_start, QG_start, CU_visit (uvg_cu_loc_ctor 0 0 16 16),
                    CU_visit (uvg_cu_loc_ctor 16 0 16 16)] @ [uvg_cu_loc_ctor 0 16 16 16])
     = Some (uvg_cu_loc_ctor 16 0 16 16)"
  "stored_qp example_grid16 (uvg_cu_loc_ctor 0 16 16 16)
     = stored_qp example_grid16 (uvg_cu_loc_ctor 16 0 16 16)"
  by (simp_all add: group_so_far_def cu_has_cbf_def cbf_found_def stored_qp_def
      example_env_qg32_def example_env_def example_grid16_def uvg_cu_array_at_def
      uvg_cu_loc_ctor_def)


text \<open>
  Claim C6, as amended. \<^verbatim>\<open>set_cu_qps\<close> is called on a region with \<^verbatim>\<open>*prev_qp = -1\<close>, as
  the encoder calls it on a CTU, for material whose chroma is subsampled by two in both
  directions (\<^verbatim>\<open>chroma_scale_x = chroma_scale_y = 1\<close>, so that the shifts halve the
  region), with enough fuel for the width of the region. Then the walk returns, and it is
  the run of its events. If moreover every region of a leaf call is a CU of the grid (the
  CTU is partitioned by quad splits into square CUs of at least 4x4) and the stored QPs
  are not negative, then for every CU \<open>L\<close> that the walk visits, with \<open>before\<close> the
  events up to the visit, and for every 4x4 cell of \<open>L\<close>:

    \<^item> if no CU of the quantization group up to and including \<open>L\<close> has a coded block
      flag set, the cell holds, once the walk has returned, the predicted QP that
      \<^verbatim>\<open>uvg_get_cu_ref_qp\<close> computes from the grid and \<^verbatim>\<open>*last_qp\<close> at the time of the
      visit;

    \<^item> if \<open>A\<close> is the first CU of the group, up to and including \<open>L\<close>, that has a coded
      block flag set, and \<open>L\<close> stores the coded QP of \<open>A\<close> (one coded QP in the
      group), the cell holds that QP.

  The predicted QP is the QP of the cell above the quantization group when the group lies
  at \<open>x_qg = 0\<close> and at a \<open>y_qg\<close> that is a positive multiple of \<^verbatim>\<open>LCU_WIDTH\<close>, and
  \<open>(qp_left + qp_above + 1) >> 1\<close> otherwise, where \<open>qp_left\<close> and \<open>qp_above\<close> fall
  back to \<open>last_qp\<close> when \<open>x_qg\<close>, respectively \<open>y_qg\<close>, is a multiple of
  \<^verbatim>\<open>LCU_WIDTH\<close>.
\<close>

theorem set_cu_qps_group_qps:
  assumes "chroma_scale_x E = 1" and "chroma_scale_y E = 1"
    and "0 \<le> loc_width cu_loc" and "loc_width cu_loc \<le> 2 ^ n" and "0 \<le> loc_height cu_loc"
    and "- 128 \<le> last_qp" and "last_qp \<le> 127"
  shows "\<exists>evs.
      set_cu_qps_events (Suc n) E cua cu_loc depth = Some evs
    \<and> set_cu_qps (Suc n) E cua cu_loc last_qp (- 1) depth
        = Some (fold (qp_event_step E) evs (cua, last_qp, - 1))
    \<and> ((\<forall>L. CU_visit L \<in> set evs \<longrightarrow> region_is_cu cua L \<and> 0 \<le> stored_qp cua L) \<longrightarrow>
       (\<forall>before L after i j.
          evs = before @ CU_visit L # after
          \<and> 0 \<le> i \<and> 4 * i < loc_width L \<and> 0 \<le> j \<and> 4 * j < loc_height L \<longrightarrow>
          (find (cu_has_cbf E cua) (group_so_far before @ [L]) = None \<longrightarrow>
             qp_after (set_cu_qps (Suc n) E cua cu_loc last_qp (- 1) depth)
                 (loc_x L + 4 * i) (loc_y L + 4 * j)
               = Some (case fold (qp_event_step E) before (cua, last_qp, - 1) of
                         (cua_k, last_k, prev_k) \<Rightarrow>
                           uvg_get_cu_ref_qp E cua_k (loc_x L) (loc_y L) last_k))
          \<and> (\<forall>A. find (cu_has_cbf E cua) (group_so_far before @ [L]) = Some A
                   \<and> stored_qp cua L = stored_qp cua A \<longrightarrow>
             qp_after (set_cu_qps (Suc n) E cua cu_loc last_qp (- 1) depth)
                 (loc_x L + 4 * i) (loc_y L + 4 * j)
               = Some (stored_qp cua A))))
    \<and> (\<forall>g x y l. uvg_get_cu_ref_qp E g x y l =
         (let xq = x_qg E g x y;
              yq = y_qg E g x y;
              qp_above = sint (qp (uvg_cu_array_at g xq (yq - 1)));
              qp_left = sint (qp (uvg_cu_array_at g (xq - 1) yq))
          in if xq = 0 \<and> yq > 0 \<and> yq smod LCU_WIDTH E = 0 then qp_above
             else drop_bit 1
                    ((if xq smod LCU_WIDTH E > 0 then qp_left else l)
                     + (if yq smod LCU_WIDTH E > 0 then qp_above else l) + 1)))"
proof -
  from events_return [of E cu_loc n cua depth] assms(1,4)
  obtain evs where evs: "set_cu_qps_events (Suc n) E cua cu_loc depth = Some evs"
    by auto
  have run: "set_cu_qps (Suc n) E cua cu_loc last_qp (- 1) depth
        = Some (fold (qp_event_step E) evs (cua, last_qp, - 1))"
    unfolding set_cu_qps_trace evs by simp
  note srt = events_sorted [OF assms(1,2) evs assms(3,5)]
  have main: "qp_after (set_cu_qps (Suc n) E cua cu_loc last_qp (- 1) depth)
                 (loc_x L + 4 * i) (loc_y L + 4 * j)
       = Some (if \<exists>A\<in>set (group_so_far before @ [L]). cu_has_cbf E cua A
               then stored_qp cua L
               else case fold (qp_event_step E) before (cua, last_qp, - 1) of
                      (cua_k, last_k, prev_k) \<Rightarrow>
                        uvg_get_cu_ref_qp E cua_k (loc_x L) (loc_y L) last_k)"
    if v: "\<forall>L. CU_visit L \<in> set evs \<longrightarrow> region_is_cu cua L \<and> 0 \<le> stored_qp cua L"
      and d: "evs = before @ CU_visit L # after"
      and cell: "0 \<le> i" "4 * i < loc_width L" "0 \<le> j" "4 * j < loc_height L"
    for before L after i j
  proof -
    obtain cua_k last_k prev_k where
      m: "fold (qp_event_step E) before (cua, last_qp, - 1) = (cua_k, last_k, prev_k)"
      by (cases "fold (qp_event_step E) before (cua, last_qp, - 1)")
    have v': "\<And>L'. CU_visit L' \<in> set (before @ CU_visit L # after) \<Longrightarrow>
                region_is_cu cua L' \<and> 0 \<le> stored_qp cua L'"
      using v unfolding d by blast
    from visit_qp [OF v' srt [unfolded d] assms(6,7) cell m]
    show ?thesis
      unfolding run qp_after_def d m by (simp add: split_beta)
  qed
  have ref: "uvg_get_cu_ref_qp E g x y l =
         (let xq = x_qg E g x y;
              yq = y_qg E g x y;
              qp_above = sint (qp (uvg_cu_array_at g xq (yq - 1)));
              qp_left = sint (qp (uvg_cu_array_at g (xq - 1) yq))
          in if xq = 0 \<and> yq > 0 \<and> yq smod LCU_WIDTH E = 0 then qp_above
             else drop_bit 1
                    ((if xq smod LCU_WIDTH E > 0 then qp_left else l)
                     + (if yq smod LCU_WIDTH E > 0 then qp_above else l) + 1))" for g x y l
    by (simp add: uvg_get_cu_ref_qp_def Let_def)
  show ?thesis
  proof (intro exI [of _ evs] conjI impI allI)
    show "set_cu_qps_events (Suc n) E cua cu_loc depth = Some evs" by (rule evs)
    show "set_cu_qps (Suc n) E cua cu_loc last_qp (- 1) depth
        = Some (fold (qp_event_step E) evs (cua, last_qp, - 1))" by (rule run)
  next
    fix before L after i j
    assume v: "\<forall>L. CU_visit L \<in> set evs \<longrightarrow> region_is_cu cua L \<and> 0 \<le> stored_qp cua L"
      and d: "evs = before @ CU_visit L # after
          \<and> 0 \<le> i \<and> 4 * i < loc_width L \<and> 0 \<le> j \<and> 4 * j < loc_height L"
      and n: "find (cu_has_cbf E cua) (group_so_far before @ [L]) = None"
    from n have "\<not> (\<exists>A\<in>set (group_so_far before @ [L]). cu_has_cbf E cua A)"
      unfolding find_None_iff by blast
    with main [OF v, of before L after i j] d
    show "qp_after (set_cu_qps (Suc n) E cua cu_loc last_qp (- 1) depth)
                 (loc_x L + 4 * i) (loc_y L + 4 * j)
               = Some (case fold (qp_event_step E) before (cua, last_qp, - 1) of
                         (cua_k, last_k, prev_k) \<Rightarrow>
                           uvg_get_cu_ref_qp E cua_k (loc_x L) (loc_y L) last_k)"
      by simp
  next
    fix before L after i j A
    assume v: "\<forall>L. CU_visit L \<in> set evs \<longrightarrow> region_is_cu cua L \<and> 0 \<le> stored_qp cua L"
      and d: "evs = before @ CU_visit L # after
          \<and> 0 \<le> i \<and> 4 * i < loc_width L \<and> 0 \<le> j \<and> 4 * j < loc_height L"
      and a: "find (cu_has_cbf E cua) (group_so_far before @ [L]) = Some A
                   \<and> stored_qp cua L = stored_qp cua A"
    from a have "\<exists>A\<in>set (group_so_far before @ [L]). cu_has_cbf E cua A"
      unfolding find_Some_iff by (metis nth_mem)
    with main [OF v, of before L after i j] d a
    show "qp_after (set_cu_qps (Suc n) E cua cu_loc last_qp (- 1) depth)
                 (loc_x L + 4 * i) (loc_y L + 4 * j)
               = Some (stored_qp cua A)"
      by simp
  next
    fix g x y l
    show "uvg_get_cu_ref_qp E g x y l =
         (let xq = x_qg E g x y;
              yq = y_qg E g x y;
              qp_above = sint (qp (uvg_cu_array_at g xq (yq - 1)));
              qp_left = sint (qp (uvg_cu_array_at g (xq - 1) yq))
          in if xq = 0 \<and> yq > 0 \<and> yq smod LCU_WIDTH E = 0 then qp_above
             else drop_bit 1
                    ((if xq smod LCU_WIDTH E > 0 then qp_left else l)
                     + (if yq smod LCU_WIDTH E > 0 then qp_above else l) + 1))"
      by (rule ref)
  qed
qed

theorem set_cu_qps_group_qps_witness:
  "chroma_scale_x example_env_qg32 = 1 \<and> chroma_scale_y example_env_qg32 = 1
   \<and> 0 \<le> loc_width (uvg_cu_loc_ctor 0 0 64 64) \<and> loc_width (uvg_cu_loc_ctor 0 0 64 64) \<le> 2 ^ 6
   \<and> 0 \<le> loc_height (uvg_cu_loc_ctor 0 0 64 64)
   \<and> set_cu_qps_events (Suc 6) example_env_qg32 example_grid16 (uvg_cu_loc_ctor 0 0 64 64) 0 =
       Some [QG_start, QG_start,
             CU_visit (uvg_cu_loc_ctor 0 0 16 16), CU_visit (uvg_cu_loc_ctor 16 0 16 16),
             CU_visit (uvg_cu_loc_ctor 0 16 16 16), CU_visit (uvg_cu_loc_ctor 16 16 16 16),
             QG_start, CU_visit (uvg_cu_loc_ctor 32 0 32 32),
             QG_start, CU_visit (uvg_cu_loc_ctor 0 32 32 32),
             QG_start, CU_visit (uvg_cu_loc_ctor 32 32 32 32)]
   \<and> list_all (\<lambda>L. region_is_cu example_grid16 L \<and> 0 \<le> stored_qp example_grid16 L)
        [uvg_cu_loc_ctor 0 0 16 16, uvg_cu_loc_ctor 16 0 16 16,
         uvg_cu_loc_ctor 0 16 16 16, uvg_cu_loc_ctor 16 16 16 16,
         uvg_cu_loc_ctor 32 0 32 32, uvg_cu_loc_ctor 0 32 32 32, uvg_cu_loc_ctor 32 32 32 32]
   \<and> find (cu_has_cbf example_env_qg32 example_grid16)
        (group_so_far [QG_start, QG_start] @ [uvg_cu_loc_ctor 0 0 16 16]) = None
   \<and> qp_after (set_cu_qps (Suc 6) example_env_qg32 example_grid16 (uvg_cu_loc_ctor 0 0 64 64)
                  20 (- 1) 0) 4 8 = Some 20
   \<and> find (cu_has_cbf example_env_qg32 example_grid16)
        (group_so_far [QG_start, QG_start, CU_visit (uvg_cu_loc_ctor 0 0 16 16),
                       CU_visit (uvg_cu_loc_ctor 16 0 16 16)] @ [uvg_cu_loc_ctor 0 16 16 16])
       = Some (uvg_cu_loc_ctor 16 0 16 16)
   \<and> stored_qp example_grid16 (uvg_cu_loc_ctor 0 16 16 16)
       = stored_qp example_grid16 (uvg_cu_loc_ctor 16 0 16 16)
   \<and> qp_after (set_cu_qps (Suc 6) example_env_qg32 example_grid16 (uvg_cu_loc_ctor 0 0 64 64)
                  20 (- 1) 0) 4 24 = Some 25"
proof -
  let ?E = example_env_qg32 and ?g = example_grid16 and ?R = "uvg_cu_loc_ctor 0 0 64 64"
  let ?C1 = "uvg_cu_loc_ctor 0 0 16 16" and ?C2 = "uvg_cu_loc_ctor 16 0 16 16"
  let ?C3 = "uvg_cu_loc_ctor 0 16 16 16"
  let ?after3 = "[CU_visit (uvg_cu_loc_ctor 16 16 16 16),
             QG_start, CU_visit (uvg_cu_loc_ctor 32 0 32 32),
             QG_start, CU_visit (uvg_cu_loc_ctor 0 32 32 32),
             QG_start, CU_visit (uvg_cu_loc_ctor 32 32 32 32)]"
  have a: "chroma_scale_x ?E = 1" "chroma_scale_y ?E = 1"
    "0 \<le> loc_width ?R" "loc_width ?R \<le> 2 ^ 6" "0 \<le> loc_height ?R"
    "- 128 \<le> (20::int)" "(20::int) \<le> 127"
    by (simp_all add: example_env_qg32_def example_env_def uvg_cu_loc_ctor_def)
  from set_cu_qps_group_qps [OF a, of ?g 0]
  obtain evs where e: "set_cu_qps_events (Suc 6) ?E ?g ?R 0 = Some evs"
    and r: "(\<forall>L. CU_visit L \<in> set evs \<longrightarrow> region_is_cu ?g L \<and> 0 \<le> stored_qp ?g L) \<longrightarrow>
       (\<forall>before L after i j.
          evs = before @ CU_visit L # after
          \<and> 0 \<le> i \<and> 4 * i < loc_width L \<and> 0 \<le> j \<and> 4 * j < loc_height L \<longrightarrow>
          (find (cu_has_cbf ?E ?g) (group_so_far before @ [L]) = None \<longrightarrow>
             qp_after (set_cu_qps (Suc 6) ?E ?g ?R 20 (- 1) 0) (loc_x L + 4 * i) (loc_y L + 4 * j)
               = Some (case fold (qp_event_step ?E) before (?g, 20, - 1) of
                         (cua_k, last_k, prev_k) \<Rightarrow>
                           uvg_get_cu_ref_qp ?E cua_k (loc_x L) (loc_y L) last_k))
          \<and> (\<forall>A. find (cu_has_cbf ?E ?g) (group_so_far before @ [L]) = Some A
                   \<and> stored_qp ?g L = stored_qp ?g A \<longrightarrow>
             qp_after (set_cu_qps (Suc 6) ?E ?g ?R 20 (- 1) 0) (loc_x L + 4 * i) (loc_y L + 4 * j)
               = Some (stored_qp ?g A)))"
    by (elim exE conjE)
  from e have evs: "evs = [QG_start, QG_start, CU_visit ?C1, CU_visit ?C2, CU_visit ?C3] @ ?after3"
    unfolding example_events16 by simp
  have v: "\<forall>L. CU_visit L \<in> set evs \<longrightarrow> region_is_cu ?g L \<and> 0 \<le> stored_qp ?g L"
    using example_cus16 unfolding evs by auto
  note r' = r [THEN mp, OF v, rule_format]
  have ref: "uvg_get_cu_ref_qp ?E ?g 0 0 20 = 20"
    by (simp add: uvg_get_cu_ref_qp_def x_qg_def y_qg_def qg_width_def qg_height_def
        example_env_qg32_def example_env_def example_grid16_def uvg_cu_array_at_def
        signed_modulo_int_def)
  have l: "loc_x ?C1 = 0" "loc_y ?C1 = 0" "loc_width ?C1 = 16" "loc_height ?C1 = 16"
    "loc_x ?C3 = 0" "loc_y ?C3 = 16" "loc_width ?C3 = 16" "loc_height ?C3 = 16"
    by (simp_all add: uvg_cu_loc_ctor_def)
  have "evs = [QG_start, QG_start] @ CU_visit ?C1 # CU_visit ?C2 # CU_visit ?C3 # ?after3
      \<and> (0::int) \<le> 1 \<and> 4 * 1 < loc_width ?C1 \<and> (0::int) \<le> 2 \<and> 4 * 2 < loc_height ?C1"
    unfolding evs l by simp
  from r' [OF this, THEN conjunct1, rule_format, OF example_groups16(1)]
  have 1: "qp_after (set_cu_qps (Suc 6) ?E ?g ?R 20 (- 1) 0) 4 8 = Some 20"
    unfolding l by (simp add: ref)
  have "evs = [QG_start, QG_start, CU_visit ?C1, CU_visit ?C2] @ CU_visit ?C3 # ?after3
      \<and> (0::int) \<le> 1 \<and> 4 * 1 < loc_width ?C3 \<and> (0::int) \<le> 2 \<and> 4 * 2 < loc_height ?C3"
    unfolding evs l by simp
  from r' [OF this, THEN conjunct2, rule_format, of ?C2] example_groups16(2,3)
  have 2: "qp_after (set_cu_qps (Suc 6) ?E ?g ?R 20 (- 1) 0) 4 24 = Some 25"
    unfolding l
    by (simp add: stored_qp_def example_grid16_def uvg_cu_array_at_def uvg_cu_loc_ctor_def)
  from a example_events16 example_cus16 example_groups16 1 2 show ?thesis
    by simp
qed

text \<open>
  The claim as first stated fails at the first quantization group of a CTU row below the
  first. The CTU at \<open>(0, 64)\<close> is one 64x64 CU without coded block flag, the only CU of
  its group; \<open>last_qp\<close> is 20 and the cells above store QP 30. Both neighbours lie
  outside the CTU, so the claimed prediction is \<open>(20 + 20 + 1) >> 1 = 20\<close>, but the CU
  receives 30, the QP of the cell above.
\<close>

theorem set_cu_qps_counterexample:
  "set_cu_qps_events 1 example_env example_grid (uvg_cu_loc_ctor 0 64 64 64) 0
     = Some [QG_start, CU_visit (uvg_cu_loc_ctor 0 64 64 64)]
   \<and> \<not> cu_has_cbf example_env example_grid (uvg_cu_loc_ctor 0 64 64 64)
   \<and> x_qg example_env example_grid 0 64 = 0 \<and> y_qg example_env example_grid 0 64 = 64
   \<and> LCU_WIDTH example_env = 64
   \<and> qp_after (set_cu_qps 1 example_env example_grid (uvg_cu_loc_ctor 0 64 64 64) 20 (- 1) 0) 0 64
       = Some 30
   \<and> drop_bit 1 ((20::int) + 20 + 1) = 20"
proof -
  have "x_qg example_env example_grid 0 64 = 0" "y_qg example_env example_grid 0 64 = 64"
    "LCU_WIDTH example_env = 64"
    by (simp_all add: x_qg_def y_qg_def qg_width_def qg_height_def example_env_def
        example_grid_def uvg_cu_array_at_def)
  moreover have "set_cu_qps_events 1 example_env example_grid (uvg_cu_loc_ctor 0 64 64 64) 0
     = Some [QG_start, CU_visit (uvg_cu_loc_ctor 0 64 64 64)]"
    by (simp add: set_cu_qps_events.simps example_env_def example_grid_def uvg_cu_array_at_def
        uvg_cu_loc_ctor_def)
  moreover have "\<not> cu_has_cbf example_env example_grid (uvg_cu_loc_ctor 0 64 64 64)"
    by (simp add: cu_has_cbf_def cbf_found_def example_env_def example_grid_def
        uvg_cu_array_at_def uvg_cu_loc_ctor_def)
  ultimately show ?thesis
    using example_row_start_qp by (simp add: drop_bit_eq_div)
qed


subsection \<open>Outside the conditions of the walk\<close>

text \<open>
  The two conditions of the result above are needed. The recursion computes the size of
  the four sub-regions with \<^verbatim>\<open>>> chroma_scale_x\<close> and \<^verbatim>\<open>>> chroma_scale_y\<close>; for 4:4:4
  material the chroma scale is 0, the first sub-region is the region itself, and the
  function does not return on a CTU that is split, whatever the fuel.
\<close>

lemma events_444_none:
  assumes "chroma_scale_x E = 0"
  shows "loc_x cu_loc < frame_width E \<Longrightarrow> loc_y cu_loc < frame_height E \<Longrightarrow>
     loc_width cu_loc > push_bit (log2_width (uvg_cu_array_at cua (loc_x cu_loc) (loc_y cu_loc))) 1
     \<Longrightarrow> set_cu_qps_events fuel E cua cu_loc depth = None"
proof (induction fuel arbitrary: cu_loc depth)
  case 0
  show ?case by (simp add: set_cu_qps_events.simps)
next
  case (Suc fuel)
  let ?c = "uvg_cu_loc_ctor (loc_x cu_loc) (loc_y cu_loc)
      (drop_bit (chroma_scale_x E) (loc_width cu_loc))
      (drop_bit (chroma_scale_y E) (loc_height cu_loc))"
  have "set_cu_qps_events fuel E cua ?c (depth + 1) = None"
    using Suc.prems by (intro Suc.IH) (simp_all add: uvg_cu_loc_ctor_def assms)
  with Suc.prems show ?case
    by (simp add: set_cu_qps_events.simps(2) [of fuel] Let_def)
qed

lemma set_cu_qps_444_no_return:
  assumes "chroma_scale_x E = 0"
    and "loc_x cu_loc < frame_width E" "loc_y cu_loc < frame_height E"
    and "loc_width cu_loc
           > push_bit (log2_width (uvg_cu_array_at cua (loc_x cu_loc) (loc_y cu_loc))) 1"
  shows "set_cu_qps fuel E cua cu_loc last_qp prev_qp depth = None"
  unfolding set_cu_qps_trace events_444_none [OF assms] by simp

text \<open>
  And the leaf test reads \<^verbatim>\<open>log2_width\<close> only. On a CTU split once by a horizontal binary
  split into two 64x32 CUs the walk takes the whole CTU for one CU: it looks at the coded
  block flags of the upper CU only, so the lower CU, which has a coded block flag and
  stores QP 30, receives the predicted QP 20.
\<close>

lemma example_binary_split:
  "cu_has_cbf example_env example_grid64x32 (uvg_cu_loc_ctor 0 32 64 32)
   \<and> stored_qp example_grid64x32 (uvg_cu_loc_ctor 0 32 64 32) = 30
   \<and> qp_after (set_cu_qps 1 example_env example_grid64x32 (uvg_cu_loc_ctor 0 0 64 64) 20 (- 1) 0)
        0 32 = Some 20"
proof -
  let ?L = "uvg_cu_loc_ctor 0 0 64 64"
  have l: "loc_x ?L = 0" "loc_y ?L = 0" "loc_width ?L = 64" "loc_height ?L = 64"
    by (simp_all add: uvg_cu_loc_ctor_def)
  have r: "uvg_get_cu_ref_qp example_env example_grid64x32 0 0 20 = 20"
    by (simp add: uvg_get_cu_ref_qp_def x_qg_def y_qg_def qg_width_def qg_height_def
        example_env_def example_grid64x32_def uvg_cu_array_at_def signed_modulo_int_def)
  have c: "\<not> cbf_found example_env example_grid64x32 ?L (- 1)"
    by (simp add: cbf_found_def l)
      (simp add: example_env_def example_grid64x32_def uvg_cu_array_at_def)
  have a: "loc_x ?L < frame_width example_env" "loc_y ?L < frame_height example_env"
    "loc_width ?L \<le> push_bit (log2_width (uvg_cu_array_at example_grid64x32 (loc_x ?L) (loc_y ?L))) 1"
    "(0::int) \<le> 0" "4 * 0 < loc_width ?L" "(0::int) \<le> 8" "4 * 8 < loc_height ?L"
    by (simp_all add: l) (simp_all add: example_env_def example_grid64x32_def uvg_cu_array_at_def)
  have m: "max_qp_delta_depth example_env = 0"
    by (simp add: example_env_def)
  from set_cu_qps_leaf_cell [OF a, of 0 20 "- 1" 0]
  have "qp_after (set_cu_qps 1 example_env example_grid64x32 ?L 20 (- 1) 0) 0 32 = Some 20"
    unfolding l m by (simp add: c r)
  moreover have "cu_has_cbf example_env example_grid64x32 (uvg_cu_loc_ctor 0 32 64 32)"
    "stored_qp example_grid64x32 (uvg_cu_loc_ctor 0 32 64 32) = 30"
    by (simp_all add: cu_has_cbf_def cbf_found_def stored_qp_def example_env_def
        example_grid64x32_def uvg_cu_array_at_def uvg_cu_loc_ctor_def)
  ultimately show ?thesis by simp
qed


section \<open>The CTU jobs: results\<close>

lemma array_read_write:
  "length buf = n \<Longrightarrow> array_read (array_write a off buf) off n = buf"
  by (auto simp: array_read_def array_write_def intro!: nth_equalityI)

lemma length_array_read [simp]: "length (array_read a off n) = n"
  by (simp add: array_read_def)

lemma search_job_alf:
  "encoder_state_worker_encode_lcu_search X cfg slicetype lcu frame =
     (if alf_type cfg \<noteq> 0
      then simulated_bitstream X lcu
             (encoder_state_worker_encode_lcu_search X (cfg\<lparr>alf_type := 0\<rparr>) slicetype lcu frame)
      else encoder_state_worker_encode_lcu_search X (cfg\<lparr>alf_type := 0\<rparr>) slicetype lcu frame)"
  by (simp add: encoder_state_worker_encode_lcu_search_def Let_def)

lemma search_job_restores:
  assumes "slicetype \<noteq> UVG_SLICE_I"
    and "keeps_hmvp (set_lcu_lambda_and_qp X lcu)" and "keeps_hmvp (after_search X lcu)"
    and "alf_type cfg = 0"
  shows "array_read
           (hmvp_lut (encoder_state_worker_encode_lcu_search X cfg slicetype lcu frame))
           (nat (drop_bit (LOG2_LCU_WIDTH X) (position_px_y lcu)) * MAX_NUM_HMVP_CANDS)
           MAX_NUM_HMVP_CANDS
         = array_read (hmvp_lut frame)
             (nat (drop_bit (LOG2_LCU_WIDTH X) (position_px_y lcu)) * MAX_NUM_HMVP_CANDS)
             MAX_NUM_HMVP_CANDS
       \<and> hmvp_size (encoder_state_worker_encode_lcu_search X cfg slicetype lcu frame)
           (nat (drop_bit (LOG2_LCU_WIDTH X) (position_px_y lcu)))
         = hmvp_size frame (nat (drop_bit (LOG2_LCU_WIDTH X) (position_px_y lcu)))
       \<and> (ibc cfg \<noteq> 0 \<longrightarrow>
            array_read
              (hmvp_lut_ibc (encoder_state_worker_encode_lcu_search X cfg slicetype lcu frame))
              (nat (drop_bit (LOG2_LCU_WIDTH X) (position_px_y lcu)) * MAX_NUM_HMVP_CANDS)
              MAX_NUM_HMVP_CANDS
            = array_read (hmvp_lut_ibc frame)
                (nat (drop_bit (LOG2_LCU_WIDTH X) (position_px_y lcu)) * MAX_NUM_HMVP_CANDS)
                MAX_NUM_HMVP_CANDS
          \<and> hmvp_size_ibc (encoder_state_worker_encode_lcu_search X cfg slicetype lcu frame)
              (nat (drop_bit (LOG2_LCU_WIDTH X) (position_px_y lcu)))
            = hmvp_size_ibc frame (nat (drop_bit (LOG2_LCU_WIDTH X) (position_px_y lcu))))"
  using assms unfolding encoder_state_worker_encode_lcu_search_def Let_def
  by (simp add: keeps_hmvp_def array_read_write)

text \<open>
  Claim C8. On a non-I slice, with collaborators before and after the search that keep
  the HMVP tables, the job \<^verbatim>\<open>encoder_state_worker_encode_lcu_search\<close> reaches its end,
  or with ALF on the simulated bitstream pass that it ends with, in a frame \<open>searched\<close>
  in which the entries of the CTU row in \<^verbatim>\<open>hmvp_lut\<close> and the row's \<^verbatim>\<open>hmvp_size\<close> are
  what they were when the job began, whatever \<^verbatim>\<open>uvg_search_lcu\<close> and the IBC hashing did
  to them; and when IBC is enabled the same holds for \<^verbatim>\<open>hmvp_lut_ibc\<close> and
  \<^verbatim>\<open>hmvp_size_ibc\<close>.
\<close>

theorem hmvp_lut_restored:
  assumes "slicetype \<noteq> UVG_SLICE_I"
    and "keeps_hmvp (set_lcu_lambda_and_qp X lcu)" and "keeps_hmvp (after_search X lcu)"
    and "ctu_row = nat (drop_bit (LOG2_LCU_WIDTH X) (position_px_y lcu))"
  shows "\<exists>searched.
           encoder_state_worker_encode_lcu_search X cfg slicetype lcu frame
             = (if alf_type cfg \<noteq> 0 then simulated_bitstream X lcu searched else searched)
         \<and> array_read (hmvp_lut searched) (ctu_row * MAX_NUM_HMVP_CANDS) MAX_NUM_HMVP_CANDS
             = array_read (hmvp_lut frame) (ctu_row * MAX_NUM_HMVP_CANDS) MAX_NUM_HMVP_CANDS
         \<and> hmvp_size searched ctu_row = hmvp_size frame ctu_row
         \<and> (ibc cfg \<noteq> 0 \<longrightarrow>
              array_read (hmvp_lut_ibc searched) (ctu_row * MAX_NUM_HMVP_CANDS) MAX_NUM_HMVP_CANDS
                = array_read (hmvp_lut_ibc frame) (ctu_row * MAX_NUM_HMVP_CANDS) MAX_NUM_HMVP_CANDS
              \<and> hmvp_size_ibc searched ctu_row = hmvp_size_ibc frame ctu_row)"
proof -
  let ?searched = "encoder_state_worker_encode_lcu_search X (cfg\<lparr>alf_type := 0\<rparr>) slicetype lcu frame"
  have "encoder_state_worker_encode_lcu_search X cfg slicetype lcu frame
          = (if alf_type cfg \<noteq> 0 then simulated_bitstream X lcu ?searched else ?searched)"
    by (rule search_job_alf)
  moreover have "alf_type (cfg\<lparr>alf_type := 0\<rparr>) = 0" by simp
  note search_job_restores [OF assms(1-3) this, of frame]
  ultimately show ?thesis
    unfolding assms(4) by (intro exI [of _ ?searched]) simp
qed

theorem hmvp_lut_restored_witness:
  "UVG_SLICE_P \<noteq> UVG_SLICE_I
   \<and> alf_type \<lparr>ibc = 1, alf_type = 0\<rparr> = 0 \<and> ibc \<lparr>ibc = 1, alf_type = 0\<rparr> \<noteq> 0
   \<and> keeps_hmvp (set_lcu_lambda_and_qp example_search_env (example_lcu 0 1))
   \<and> keeps_hmvp (after_search example_search_env (example_lcu 0 1))
   \<and> nat (drop_bit (LOG2_LCU_WIDTH example_search_env) (position_px_y (example_lcu 0 1))) = 1
   \<and> array_read (hmvp_lut (uvg_search_lcu example_search_env (example_lcu 0 1) example_videoframe))
        (1 * MAX_NUM_HMVP_CANDS) MAX_NUM_HMVP_CANDS = [99, 99, 99, 99, 99]
   \<and> array_read (hmvp_lut (encoder_state_worker_encode_lcu_search example_search_env
          \<lparr>ibc = 1, alf_type = 0\<rparr> UVG_SLICE_P (example_lcu 0 1) example_videoframe))
        (1 * MAX_NUM_HMVP_CANDS) MAX_NUM_HMVP_CANDS = [5, 6, 7, 8, 9]
   \<and> hmvp_size (encoder_state_worker_encode_lcu_search example_search_env
          \<lparr>ibc = 1, alf_type = 0\<rparr> UVG_SLICE_P (example_lcu 0 1) example_videoframe) 1 = 2
   \<and> array_read (hmvp_lut_ibc (encoder_state_worker_encode_lcu_search example_search_env
          \<lparr>ibc = 1, alf_type = 0\<rparr> UVG_SLICE_P (example_lcu 0 1) example_videoframe))
        (1 * MAX_NUM_HMVP_CANDS) MAX_NUM_HMVP_CANDS = [10, 12, 14, 16, 18]
   \<and> hmvp_size_ibc (encoder_state_worker_encode_lcu_search example_search_env
          \<lparr>ibc = 1, alf_type = 0\<rparr> UVG_SLICE_P (example_lcu 0 1) example_videoframe) 1 = 1"
proof -
  have k: "keeps_hmvp (set_lcu_lambda_and_qp example_search_env (example_lcu 0 1))"
    "keeps_hmvp (after_search example_search_env (example_lcu 0 1))"
    by (simp_all add: keeps_hmvp_def example_search_env_def)
  have r: "nat (drop_bit (LOG2_LCU_WIDTH example_search_env) (position_px_y (example_lcu 0 1))) = 1"
    by (simp add: example_search_env_def example_lcu_def drop_bit_eq_div)
  have h: "UVG_SLICE_P \<noteq> UVG_SLICE_I" "alf_type \<lparr>ibc = 1, alf_type = 0\<rparr> = 0"
    "ibc \<lparr>ibc = 1, alf_type = 0\<rparr> \<noteq> 0"
    by simp_all
  have five: "[0..<5] = [0, 1, 2, 3, 4]"
    by (simp add: upt_rec)
  have v: "array_read (hmvp_lut example_videoframe) (1 * MAX_NUM_HMVP_CANDS) MAX_NUM_HMVP_CANDS
             = [5, 6, 7, 8, 9]"
    "hmvp_size example_videoframe 1 = 2"
    "array_read (hmvp_lut_ibc example_videoframe) (1 * MAX_NUM_HMVP_CANDS) MAX_NUM_HMVP_CANDS
             = [10, 12, 14, 16, 18]"
    "hmvp_size_ibc example_videoframe 1 = 1"
    "array_read (hmvp_lut (uvg_search_lcu example_search_env (example_lcu 0 1) example_videoframe))
        (1 * MAX_NUM_HMVP_CANDS) MAX_NUM_HMVP_CANDS = [99, 99, 99, 99, 99]"
    by (simp_all add: array_read_def MAX_NUM_HMVP_CANDS_def example_videoframe_def five
        example_search_env_def)
  from hmvp_lut_restored [OF h(1) k r [symmetric], of "\<lparr>ibc = 1, alf_type = 0\<rparr>" example_videoframe]
  obtain searched where
    "encoder_state_worker_encode_lcu_search example_search_env \<lparr>ibc = 1, alf_type = 0\<rparr>
        UVG_SLICE_P (example_lcu 0 1) example_videoframe = searched"
    and "array_read (hmvp_lut searched) (1 * MAX_NUM_HMVP_CANDS) MAX_NUM_HMVP_CANDS
             = array_read (hmvp_lut example_videoframe) (1 * MAX_NUM_HMVP_CANDS) MAX_NUM_HMVP_CANDS"
    and "hmvp_size searched 1 = hmvp_size example_videoframe 1"
    and "array_read (hmvp_lut_ibc searched) (1 * MAX_NUM_HMVP_CANDS) MAX_NUM_HMVP_CANDS
             = array_read (hmvp_lut_ibc example_videoframe) (1 * MAX_NUM_HMVP_CANDS) MAX_NUM_HMVP_CANDS"
    and "hmvp_size_ibc searched 1 = hmvp_size_ibc example_videoframe 1"
    by auto
  with h v k r show ?thesis by simp
qed

lemma context_copy_loop:
  assumes "i < length ch" and "\<forall>j \<in> set js. j < length ch"
  shows "length (fold (\<lambda>j ch.
            if wfrow_lcu_offset_y (ch ! j) = wfrow_lcu_offset_y (ch ! i) + 1
            then ch[j := uvg_context_copy (ch ! j) (ch ! i)] else ch) js ch) = length ch
       \<and> (\<forall>k < length ch.
            fold (\<lambda>j ch.
              if wfrow_lcu_offset_y (ch ! j) = wfrow_lcu_offset_y (ch ! i) + 1
              then ch[j := uvg_context_copy (ch ! j) (ch ! i)] else ch) js ch ! k =
            (if k \<in> set js \<and> wfrow_lcu_offset_y (ch ! k) = wfrow_lcu_offset_y (ch ! i) + 1
             then (ch ! k)\<lparr>cabac_ctx := cabac_ctx (ch ! i)\<rparr> else ch ! k))"
  using assms
proof (induction js arbitrary: ch)
  case Nil
  show ?case by simp
next
  case (Cons a js)
  let ?F = "\<lambda>j ch. if wfrow_lcu_offset_y (ch ! j) = wfrow_lcu_offset_y (ch ! i) + 1
            then ch[j := uvg_context_copy (ch ! j) (ch ! i)] else ch"
  let ?ch = "?F a ch"
  have a: "a < length ch" using Cons.prems by simp
  have len: "length ?ch = length ch" by simp
  have i': "?ch ! i = ch ! i"
    using Cons.prems(1) a by (cases "a = i") (auto simp: nth_list_update)
  have off: "wfrow_lcu_offset_y (?ch ! k) = wfrow_lcu_offset_y (ch ! k)" if "k < length ch" for k
    using that a by (auto simp: nth_list_update uvg_context_copy_def)
  have step: "?ch ! k =
      (if k = a \<and> wfrow_lcu_offset_y (ch ! k) = wfrow_lcu_offset_y (ch ! i) + 1
       then (ch ! k)\<lparr>cabac_ctx := cabac_ctx (ch ! i)\<rparr> else ch ! k)" if "k < length ch" for k
    using that a by (auto simp: nth_list_update uvg_context_copy_def)
  have p: "i < length ?ch" "\<forall>j \<in> set js. j < length ?ch"
    using Cons.prems by simp_all
  note IH = Cons.IH [OF p]
  have f: "fold ?F (a # js) ch = fold ?F js ?ch" by simp
  show ?case
    unfolding f
  proof (intro conjI allI impI)
    show "length (fold ?F js ?ch) = length ch"
      using IH len by simp
    fix k assume k: "k < length ch"
    then have "fold ?F js ?ch ! k =
        (if k \<in> set js \<and> wfrow_lcu_offset_y (?ch ! k) = wfrow_lcu_offset_y (?ch ! i) + 1
         then (?ch ! k)\<lparr>cabac_ctx := cabac_ctx (?ch ! i)\<rparr> else ?ch ! k)"
      using IH len by simp
    also have "\<dots> =
        (if k \<in> set (a # js) \<and> wfrow_lcu_offset_y (ch ! k) = wfrow_lcu_offset_y (ch ! i) + 1
         then (ch ! k)\<lparr>cabac_ctx := cabac_ctx (ch ! i)\<rparr> else ch ! k)"
      unfolding i' off [OF k] step [OF k] by auto
    finally show "fold ?F js ?ch ! k =
        (if k \<in> set (a # js) \<and> wfrow_lcu_offset_y (ch ! k) = wfrow_lcu_offset_y (ch ! i) + 1
         then (ch ! k)\<lparr>cabac_ctx := cabac_ctx (ch ! i)\<rparr> else ch ! k)" .
  qed
qed

lemma worker_bitstream_nth:
  assumes "i < length ch" and "k < length ch"
  shows "encoder_state_worker_encode_lcu_bitstream code_lcu lcu i ch ! k =
     (if k = i then (ch ! i)\<lparr>cabac_ctx := code_lcu lcu (cabac_ctx (ch ! i))\<rparr>
      else if state_type (ch ! i) = ENCODER_STATE_TYPE_WAVEFRONT_ROW \<and> index lcu = 0
              \<and> wfrow_lcu_offset_y (ch ! k) = wfrow_lcu_offset_y (ch ! i) + 1
      then (ch ! k)\<lparr>cabac_ctx := code_lcu lcu (cabac_ctx (ch ! i))\<rparr>
      else ch ! k)"
    and "length (encoder_state_worker_encode_lcu_bitstream code_lcu lcu i ch) = length ch"
proof -
  let ?ch = "ch[i := (ch ! i)\<lparr>cabac_ctx := code_lcu lcu (cabac_ctx (ch ! i))\<rparr>]"
  have p: "i < length ?ch" "\<forall>j \<in> set [0..<length ?ch]. j < length ?ch"
    using assms by simp_all
  note L = context_copy_loop [OF p]
  have k: "k < length ?ch" using assms by simp
  show "encoder_state_worker_encode_lcu_bitstream code_lcu lcu i ch ! k =
     (if k = i then (ch ! i)\<lparr>cabac_ctx := code_lcu lcu (cabac_ctx (ch ! i))\<rparr>
      else if state_type (ch ! i) = ENCODER_STATE_TYPE_WAVEFRONT_ROW \<and> index lcu = 0
              \<and> wfrow_lcu_offset_y (ch ! k) = wfrow_lcu_offset_y (ch ! i) + 1
      then (ch ! k)\<lparr>cabac_ctx := code_lcu lcu (cabac_ctx (ch ! i))\<rparr>
      else ch ! k)"
    unfolding encoder_state_worker_encode_lcu_bitstream_def Let_def
    using L [THEN conjunct2, rule_format, OF k] assms
    by (auto simp: nth_list_update)
  show "length (encoder_state_worker_encode_lcu_bitstream code_lcu lcu i ch) = length ch"
    unfolding encoder_state_worker_encode_lcu_bitstream_def Let_def
    using L [THEN conjunct1] by simp
qed


lemma encode_lcus_other_rows:
  assumes "\<forall>l \<in> set ls. index l \<noteq> 0" and "i < length ch" and "k < length ch" and "k \<noteq> i"
  shows "encode_lcus_bitstream code_lcu ls i ch ! k = ch ! k"
  using assms
proof (induction ls arbitrary: ch)
  case Nil
  show ?case by (simp add: encode_lcus_bitstream_def)
next
  case (Cons l ls)
  let ?ch = "encoder_state_worker_encode_lcu_bitstream code_lcu l i ch"
  have len: "length ?ch = length ch"
    using worker_bitstream_nth(2) [OF Cons.prems(2,3)] .
  have "encode_lcus_bitstream code_lcu (l # ls) i ch ! k
      = encode_lcus_bitstream code_lcu ls i ?ch ! k"
    by (simp add: encode_lcus_bitstream_def)
  also have "\<dots> = ?ch ! k"
    using Cons.prems len by (intro Cons.IH) simp_all
  also have "\<dots> = ch ! k"
    using Cons.prems by (simp add: worker_bitstream_nth(1))
  finally show ?case .
qed

text \<open>
  Claim C2, as amended. In WPP mode the context models are copied into the state of the
  next row exactly when the first CTU of the current row (\<^verbatim>\<open>lcu->index == 0\<close>) has been
  emitted: after the bitstream job of a CTU of row \<open>i\<close>, the contexts of a row \<open>j\<close> one
  below are those that row \<open>i\<close> has after this CTU if the CTU is the first of its row, and
  are untouched otherwise. So once row \<open>i\<close> has emitted its first CTU, and however many
  more of its CTUs, the contexts of row \<open>j\<close> are the contexts after CTU \<open>(i, 0)\<close>.
\<close>

theorem wpp_context_handoff:
  assumes "i < length children" and "j < length children"
    and "state_type (children ! i) = ENCODER_STATE_TYPE_WAVEFRONT_ROW"
    and "wfrow_lcu_offset_y (children ! j) = wfrow_lcu_offset_y (children ! i) + 1"
  shows "cabac_ctx (encoder_state_worker_encode_lcu_bitstream code_lcu lcu i children ! i)
           = code_lcu lcu (cabac_ctx (children ! i))
       \<and> cabac_ctx (encoder_state_worker_encode_lcu_bitstream code_lcu lcu i children ! j)
           = (if index lcu = 0 then code_lcu lcu (cabac_ctx (children ! i))
              else cabac_ctx (children ! j))
       \<and> (index l0 = 0 \<and> (\<forall>l \<in> set ls. index l \<noteq> 0) \<longrightarrow>
            cabac_ctx (encode_lcus_bitstream code_lcu (l0 # ls) i children ! j)
              = code_lcu l0 (cabac_ctx (children ! i)))"
proof (intro conjI impI)
  have ji: "j \<noteq> i" using assms(4) by auto
  show "cabac_ctx (encoder_state_worker_encode_lcu_bitstream code_lcu lcu i children ! i)
           = code_lcu lcu (cabac_ctx (children ! i))"
    by (simp add: worker_bitstream_nth(1) [OF assms(1,1)])
  show "cabac_ctx (encoder_state_worker_encode_lcu_bitstream code_lcu lcu i children ! j)
           = (if index lcu = 0 then code_lcu lcu (cabac_ctx (children ! i))
              else cabac_ctx (children ! j))"
    using ji assms(3,4) by (simp add: worker_bitstream_nth(1) [OF assms(1,2)])
  assume h: "index l0 = 0 \<and> (\<forall>l \<in> set ls. index l \<noteq> 0)"
  let ?ch = "encoder_state_worker_encode_lcu_bitstream code_lcu l0 i children"
  have len: "length ?ch = length children"
    using worker_bitstream_nth(2) [OF assms(1,2)] .
  have "encode_lcus_bitstream code_lcu (l0 # ls) i children ! j
      = encode_lcus_bitstream code_lcu ls i ?ch ! j"
    by (simp add: encode_lcus_bitstream_def)
  also have "\<dots> = ?ch ! j"
    using h assms(1,2) len ji by (intro encode_lcus_other_rows) simp_all
  finally show "cabac_ctx (encode_lcus_bitstream code_lcu (l0 # ls) i children ! j)
              = code_lcu l0 (cabac_ctx (children ! i))"
    using h ji assms(3,4) by (simp add: worker_bitstream_nth(1) [OF assms(1,2)])
qed

lemma example_rows_facts:
  "length example_rows = 2"
  "state_type (example_rows ! 0) = ENCODER_STATE_TYPE_WAVEFRONT_ROW"
  "wfrow_lcu_offset_y (example_rows ! 1) = wfrow_lcu_offset_y (example_rows ! 0) + 1"
  "cabac_ctx (example_rows ! 0) = 10" "cabac_ctx (example_rows ! 1) = 0"
  by (simp_all add: example_rows_def)

theorem wpp_context_handoff_witness:
  "0 < length example_rows \<and> 1 < length example_rows
   \<and> state_type (example_rows ! 0) = ENCODER_STATE_TYPE_WAVEFRONT_ROW
   \<and> wfrow_lcu_offset_y (example_rows ! 1) = wfrow_lcu_offset_y (example_rows ! 0) + 1
   \<and> index (example_lcu 0 0) = 0 \<and> index (example_lcu 1 0) \<noteq> 0 \<and> index (example_lcu 2 0) \<noteq> 0
   \<and> cabac_ctx (encoder_state_worker_encode_lcu_bitstream example_code_lcu (example_lcu 0 0) 0
        example_rows ! 1) = 11
   \<and> cabac_ctx (encoder_state_worker_encode_lcu_bitstream example_code_lcu (example_lcu 1 0) 0
        example_rows ! 1) = 0
   \<and> cabac_ctx (encode_lcus_bitstream example_code_lcu
        [example_lcu 0 0, example_lcu 1 0, example_lcu 2 0] 0 example_rows ! 1) = 11"
proof -
  have a: "0 < length example_rows" "1 < length example_rows"
    by (simp_all add: example_rows_facts)
  have i: "index (example_lcu 0 0) = 0" "index (example_lcu 1 0) \<noteq> 0" "index (example_lcu 2 0) \<noteq> 0"
    by (simp_all add: example_lcu_def)
  note T = wpp_context_handoff [OF a example_rows_facts(2,3), of example_code_lcu]
  from T [of "example_lcu 0 0"] T [of "example_lcu 1 0"]
    T [of _ "example_lcu 0 0" "[example_lcu 1 0, example_lcu 2 0]"]
  show ?thesis
    using a i example_rows_facts(2-5) by (simp add: example_code_lcu_def)
qed

text \<open>
  The claim as first stated puts the copy after the second CTU (column index 1). In the
  example the bitstream job of the CTU with index 1 leaves the contexts of the next row
  as they were (0); and after the first two CTUs of row 0, in order, row 0 has the
  contexts 12 (the state after CTU \<open>(0, 1)\<close>) while row 1 holds 11 (the state after CTU
  \<open>(0, 0)\<close>).
\<close>

theorem wpp_context_handoff_counterexample:
  "index (example_lcu 1 0) = 1
   \<and> map cabac_ctx (encoder_state_worker_encode_lcu_bitstream example_code_lcu (example_lcu 1 0) 0
        example_rows) = [11, 0]
   \<and> map cabac_ctx (encode_lcus_bitstream example_code_lcu [example_lcu 0 0, example_lcu 1 0] 0
        example_rows) = [12, 11]"
  by (simp add: encode_lcus_bitstream_def encoder_state_worker_encode_lcu_bitstream_def
      example_rows_def example_lcu_def example_code_lcu_def uvg_context_copy_def Let_def upt_rec)

end
